theory Spec2Isabelle
  imports Complex_Main "HOL-Library.Multiset"
begin

section \<open>JavaScript helpers\<close>

text \<open>
  JavaScript numbers are modelled as \<^typ>\<open>real\<close> (rounding of IEEE doubles is not
  modelled); array indices handed over by the drag-and-drop library are natural numbers.
\<close>

text \<open>\<^verbatim>\<open>xs[i]\<close>: reading past the end gives \<^verbatim>\<open>undefined\<close>, here \<open>None\<close>.\<close>

definition js_index :: "'a list \<Rightarrow> nat \<Rightarrow> 'a option" where
  "js_index xs i = (if i < length xs then Some (xs ! i) else None)"

text \<open>\<^verbatim>\<open>xs.splice(i, 1)\<close> on a copy: nothing is removed when \<open>i\<close> is past the end.\<close>

definition splice_remove :: "nat \<Rightarrow> 'a list \<Rightarrow> 'a list" where
  "splice_remove i xs = take i xs @ drop (Suc i) xs"

text \<open>\<^verbatim>\<open>xs.splice(i, 0, x)\<close> on a copy: a start index past the end is clamped to the length.\<close>

definition splice_insert :: "nat \<Rightarrow> 'a \<Rightarrow> 'a list \<Rightarrow> 'a list" where
  "splice_insert i x xs = take i xs @ [x] @ drop i xs"

text \<open>\<^verbatim>\<open>s.startsWith(p)\<close>\<close>

definition startsWith :: "string \<Rightarrow> string \<Rightarrow> bool" where
  "startsWith p s = (take (length p) s = p)"

text \<open>\<^verbatim>\<open>s.replace(p, r)\<close> with a string pattern: only the first occurrence is replaced.\<close>

fun replace_first :: "string \<Rightarrow> string \<Rightarrow> string \<Rightarrow> string" where
  "replace_first p r [] = (if p = [] then r else [])"
| "replace_first p r (c # cs) =
     (if take (length p) (c # cs) = p then r @ drop (length p) (c # cs)
      else c # replace_first p r cs)"

text \<open>
  A \<^verbatim>\<open>Record<string, T>\<close> is an association list in the order of \<^verbatim>\<open>Object.entries\<close>,
  one entry per key: the keys that are array indices first, in ascending numeric order,
  then the other keys in the order they were created.

  An array index is a canonical numeric string (digits only, no leading zero unless it is
  \<^verbatim>\<open>"0"\<close>) with a number of at most \<open>2\<^sup>3\<^sup>2 - 2\<close>.
\<close>

definition is_digit :: "char \<Rightarrow> bool" where
  "is_digit c = (48 \<le> (of_char c :: nat) \<and> (of_char c :: nat) \<le> 57)"

definition digits_value :: "string \<Rightarrow> nat" where
  "digits_value cs = foldl (\<lambda>n c. 10 * n + (of_char c - 48)) 0 cs"

definition array_index :: "string \<Rightarrow> nat option" where
  "array_index k =
     (if k \<noteq> [] \<and> list_all is_digit k \<and> (k = ''0'' \<or> take 1 k \<noteq> ''0'')
         \<and> digits_value k \<le> 4294967294
      then Some (digits_value k) else None)"

text \<open>\<open>obj_get\<close> is \<^verbatim>\<open>obj[k]\<close>.\<close>

definition obj_get :: "(string \<times> 'v) list \<Rightarrow> string \<Rightarrow> 'v option" where
  "obj_get m k = map_of m k"

text \<open>Writing a key the object has: the entry keeps its place.\<close>

fun obj_replace :: "string \<Rightarrow> 'v \<Rightarrow> (string \<times> 'v) list \<Rightarrow> (string \<times> 'v) list" where
  "obj_replace k v [] = []"
| "obj_replace k v ((k', v') # m) =
     (if k = k' then (k, v) # m else (k', v') # obj_replace k v m)"

text \<open>
  Whether a new key with index \<open>ix\<close> is listed before an existing key with index \<open>ix'\<close>
  (\<open>None\<close> for a key that is no array index).
\<close>

fun goes_before :: "nat option \<Rightarrow> nat option \<Rightarrow> bool" where
  "goes_before (Some n) (Some n') = (n < n')"
| "goes_before (Some n) None = True"
| "goes_before None ix' = False"

text \<open>Creating a key the object does not have.\<close>

fun obj_insert :: "string \<Rightarrow> 'v \<Rightarrow> (string \<times> 'v) list \<Rightarrow> (string \<times> 'v) list" where
  "obj_insert k v [] = [(k, v)]"
| "obj_insert k v ((k', v') # m) =
     (if goes_before (array_index k) (array_index k') then (k, v) # (k', v') # m
      else (k', v') # obj_insert k v m)"

text \<open>\<open>obj_set\<close> is \<^verbatim>\<open>obj[k] = v\<close> on a copy.\<close>

definition obj_set :: "string \<Rightarrow> 'v \<Rightarrow> (string \<times> 'v) list \<Rightarrow> (string \<times> 'v) list" where
  "obj_set k v m = (if map_of m k = None then obj_insert k v m else obj_replace k v m)"

section \<open>Data model (WorkforcePage.tsx)\<close>

record Employee =
  emp_id :: string
  name :: string
  role :: string
  efficiency :: nat

text \<open>\<^verbatim>\<open>ProcessNode\<close>, with the nested \<^verbatim>\<open>data\<close> object flattened.\<close>

record ProcessNode =
  node_id :: string
  label :: string
  isBottleneck :: bool
  avgDuration :: real

record Simulation =
  cycle_time_before :: real
  cycle_time_after :: real
  cycle_reduction_pct :: real
  throughput_gain_pct :: real
  opex_increase :: real
  is_bottleneck :: bool
  impact_score :: real

text \<open>
  The parsed JSON body of an answer of \<^verbatim>\<open>/api/suggest\<close>, as the code reads it. The
  source tests neither \<^verbatim>\<open>r.ok\<close> nor the shape of the body, so either field can be
  missing (\<^verbatim>\<open>undefined\<close>, here \<open>None\<close>), as in the body of an HTTP error. A
  \<^verbatim>\<open>simulation\<close> that is present has all its fields.
\<close>

record Suggestion =
  simulation :: "Simulation option"
  ai_suggestion :: "string option"

definition initialEmployees :: "Employee list" where
  "initialEmployees =
    [\<lparr>emp_id = ''emp-1'', name = ''Alice Chen'', role = ''Snr. Analyst'', efficiency = 95\<rparr>,
     \<lparr>emp_id = ''emp-2'', name = ''Bob Smith'', role = ''Approver'', efficiency = 78\<rparr>,
     \<lparr>emp_id = ''emp-3'', name = ''Charlie D'', role = ''Clerk'', efficiency = 82\<rparr>,
     \<lparr>emp_id = ''emp-4'', name = ''Dana Lee'', role = ''QA Engineer'', efficiency = 88\<rparr>,
     \<lparr>emp_id = ''emp-5'', name = ''Eve Park'', role = ''Snr. Approver'', efficiency = 91\<rparr>,
     \<lparr>emp_id = ''emp-6'', name = ''Frank Wu'', role = ''Analyst'', efficiency = 75\<rparr>]"

text \<open>The notify sink \<^verbatim>\<open>showToast(message, type, duration?)\<close>, kept as a log.\<close>

datatype toast_type = Info | Success | Error | Loading

type_synonym toast = "string \<times> toast_type \<times> nat option"

datatype phase = Idle | Simulating | Analyzing | Complete

text \<open>An entry of \<^verbatim>\<open>allResults\<close>; its fields are copied from the body as they are.\<close>

record sim_result =
  processName :: string
  sim :: "Simulation option"
  suggestion :: "string option"

text \<open>The body of one \<^verbatim>\<open>POST /api/suggest\<close>: process id, process label, assigned staff.\<close>

type_synonym suggest_request = "string \<times> string \<times> Employee list"

text \<open>
  The React state of the page. \<open>toasts\<close> logs the calls of \<^verbatim>\<open>showToast\<close> and
  \<open>suggestCalls\<close> the calls of the advisory \<^verbatim>\<open>fetchSuggestion\<close>, in order.
\<close>

record page_state =
  processes :: "ProcessNode list"
  availableStaff :: "Employee list"
  assignments :: "(string \<times> Employee list) list"
  showSimModal :: bool
  simPhase :: phase
  simProgress :: "nat \<times> nat \<times> string"
  simResults :: "sim_result list"
  simAggregate :: "Simulation option"
  isDragging :: bool
  toasts :: "toast list"
  suggestCalls :: "suggest_request list"

record DraggableLocation =
  droppableId :: string
  index :: nat

record DropResult =
  source :: DraggableLocation
  destination :: "DraggableLocation option"

section \<open>The assignment ledger of WorkforcePage.tsx\<close>

text \<open>\<^verbatim>\<open>assignments[processId] || []\<close>\<close>

definition staff_of :: "(string \<times> Employee list) list \<Rightarrow> string \<Rightarrow> Employee list" where
  "staff_of m k = (case obj_get m k of None \<Rightarrow> [] | Some xs \<Rightarrow> xs)"

text \<open>\<^verbatim>\<open>proc?.data.label || fallback\<close>: a missing process and an empty label both fall back.\<close>

definition label_or :: "string \<Rightarrow> ProcessNode option \<Rightarrow> string" where
  "label_or fallback proc =
     (case proc of None \<Rightarrow> fallback
      | Some p \<Rightarrow> if label p = [] then fallback else label p)"

definition showToast :: "toast \<Rightarrow> page_state \<Rightarrow> page_state" where
  "showToast t s = s\<lparr>toasts := toasts s @ [t]\<rparr>"

definition onDragStart :: "page_state \<Rightarrow> page_state" where
  "onDragStart s = s\<lparr>isDragging := True\<rparr>"

text \<open>The pool-to-process branch of \<^verbatim>\<open>onDragEnd\<close>, after the dragged employee is found.\<close>

definition assign_to_process :: "nat \<Rightarrow> Employee \<Rightarrow> string \<Rightarrow> page_state \<Rightarrow> page_state" where
  "assign_to_process i dragged dest s =
     (let processId = replace_first ''process-'' [] dest;
          newPool = splice_remove i (availableStaff s);
          newStaff = staff_of (assignments s) processId @ [dragged];
          newAssignments = obj_set processId newStaff (assignments s);
          proc = find (\<lambda>p. node_id p = processId) (processes s);
          s1 = showToast (''Assigned '' @ name dragged @ '' to '' @ label_or ''process'' proc,
                          Success, Some 3000)
                 (s\<lparr>availableStaff := newPool, assignments := newAssignments\<rparr>)
      in case proc of
           None \<Rightarrow> s1
         | Some p \<Rightarrow> s1\<lparr>suggestCalls := suggestCalls s1 @ [(processId, label p, newStaff)]\<rparr>)"

text \<open>The process-to-pool branch of \<^verbatim>\<open>onDragEnd\<close>, after the dragged employee is found.\<close>

definition return_to_pool :: "string \<Rightarrow> nat \<Rightarrow> Employee \<Rightarrow> page_state \<Rightarrow> page_state" where
  "return_to_pool processId i dragged s =
     (let newProcessStaff = splice_remove i (staff_of (assignments s) processId);
          newAssignments = obj_set processId newProcessStaff (assignments s)
      in showToast (name dragged @ '' returned to pool'', Info, Some 2000)
           (s\<lparr>assignments := newAssignments,
              availableStaff := availableStaff s @ [dragged]\<rparr>))"

definition onDragEnd :: "DropResult \<Rightarrow> page_state \<Rightarrow> page_state" where
  "onDragEnd result s0 =
     (let s = s0\<lparr>isDragging := False\<rparr> in
      case destination result of
        None \<Rightarrow> s
      | Some dest \<Rightarrow>
          let src = source result in
          if droppableId src = droppableId dest then s
          else if droppableId src = ''employee-pool'' then
            (case js_index (availableStaff s) (index src) of
               None \<Rightarrow> s
             | Some dragged \<Rightarrow>
                 if startsWith ''process-'' (droppableId dest)
                 then assign_to_process (index src) dragged (droppableId dest) s
                 else s)
          else if startsWith ''process-'' (droppableId src) then
            (let processId = replace_first ''process-'' [] (droppableId src) in
             case js_index (staff_of (assignments s) processId) (index src) of
               None \<Rightarrow> s
             | Some dragged \<Rightarrow>
                 if droppableId dest = ''employee-pool''
                 then return_to_pool processId (index src) dragged s
                 else s)
          else s)"

definition removeFromProcess :: "string \<Rightarrow> nat \<Rightarrow> page_state \<Rightarrow> page_state" where
  "removeFromProcess processId empIndex s =
     (case js_index (staff_of (assignments s) processId) empIndex of
        None \<Rightarrow> s
      | Some emp \<Rightarrow>
          showToast (name emp @ '' returned to pool'', Info, Some 2000)
            (s\<lparr>assignments := obj_set processId
                                  (splice_remove empIndex (staff_of (assignments s) processId))
                                  (assignments s),
               availableStaff := availableStaff s @ [emp]\<rparr>))"

text \<open>
  The state once \<^verbatim>\<open>fetchTopology\<close> has resolved with the nodes \<open>procs\<close>: every
  employee in the pool, one empty sequence per process id.
\<close>

definition initial_state :: "ProcessNode list \<Rightarrow> page_state" where
  "initial_state procs =
     \<lparr>processes = procs,
      availableStaff = initialEmployees,
      assignments = foldl (\<lambda>m n. obj_set (node_id n) [] m) [] procs,
      showSimModal = False,
      simPhase = Idle,
      simProgress = (0, 0, []),
      simResults = [],
      simAggregate = None,
      isDragging = False,
      toasts = [],
      suggestCalls = []\<rparr>"

text \<open>The two operations that write the ledger.\<close>

datatype ledger_event = DragEnd DropResult | RemoveFromProcess string nat

fun ledger_step :: "page_state \<Rightarrow> ledger_event \<Rightarrow> page_state" where
  "ledger_step s (DragEnd r) = onDragEnd r s"
| "ledger_step s (RemoveFromProcess p i) = removeFromProcess p i s"

definition run_ledger :: "ProcessNode list \<Rightarrow> ledger_event list \<Rightarrow> page_state" where
  "run_ledger procs evs = foldl ledger_step (initial_state procs) evs"

text \<open>All location sequences of the ledger, the pool first.\<close>

definition all_workers :: "page_state \<Rightarrow> Employee list" where
  "all_workers s = availableStaff s @ concat (map snd (assignments s))"

section \<open>The two-list ledger of WorkforceAllocation.tsx\<close>

record alloc_state =
  availableStaff_wa :: "Employee list"
  assignedStaff_wa :: "Employee list"

text \<open>
  \<^verbatim>\<open>droppableId === 'available' ? availableStaff : assignedStaff\<close>: every id other
  than \<^verbatim>\<open>'available'\<close> selects the assigned list.
\<close>

definition list_of_wa :: "string \<Rightarrow> alloc_state \<Rightarrow> Employee list" where
  "list_of_wa d s = (if d = ''available'' then availableStaff_wa s else assignedStaff_wa s)"

text \<open>
  With a source index past the end, \<^verbatim>\<open>splice(i, 1)\<close> yields no item and the source
  splices \<^verbatim>\<open>undefined\<close> into the list; the result is no list of employees any more.
\<close>

datatype alloc_error = UndefinedSpliced

definition onDragEnd_wa :: "DropResult \<Rightarrow> alloc_state \<Rightarrow> alloc_error + alloc_state" where
  "onDragEnd_wa result s =
     (case destination result of
        None \<Rightarrow> Inr s
      | Some dest \<Rightarrow>
          let src = source result;
              sourceList = list_of_wa (droppableId src) s;
              destList = list_of_wa (droppableId dest) s
          in if droppableId src = droppableId dest then
               (case js_index sourceList (index src) of
                  None \<Rightarrow> Inl UndefinedSpliced
                | Some reorderedItem \<Rightarrow>
                    let items = splice_insert (index dest) reorderedItem
                                  (splice_remove (index src) sourceList)
                    in if droppableId src = ''available''
                       then Inr (s\<lparr>availableStaff_wa := items\<rparr>)
                       else Inr (s\<lparr>assignedStaff_wa := items\<rparr>))
             else
               (case js_index sourceList (index src) of
                  None \<Rightarrow> Inl UndefinedSpliced
                | Some movedItem \<Rightarrow>
                    let sourceClone = splice_remove (index src) sourceList;
                        destClone = splice_insert (index dest) movedItem destList
                    in if droppableId src = ''available''
                       then Inr (s\<lparr>availableStaff_wa := sourceClone,
                                   assignedStaff_wa := destClone\<rparr>)
                       else Inr (s\<lparr>assignedStaff_wa := sourceClone,
                                   availableStaff_wa := destClone\<rparr>)))"

definition initial_alloc :: alloc_state where
  "initial_alloc = \<lparr>availableStaff_wa = initialEmployees, assignedStaff_wa = []\<rparr>"

section \<open>The simulation pipeline of WorkforcePage.tsx\<close>

text \<open>
  The remote service, as the run sees it: the answer to the \<open>i\<close>-th call of the run
  (counted from 0) with a given request body. \<open>None\<close> is a call that throws inside the
  loop: \<^verbatim>\<open>fetch\<close> rejects, \<^verbatim>\<open>r.json()\<close> rejects, or the body is \<^verbatim>\<open>null\<close> and
  reading \<^verbatim>\<open>res.simulation\<close> throws. \<open>Some\<close> is every other answer, whatever its HTTP
  status: the call resolves and the loop goes on.
\<close>

type_synonym remote = "nat \<Rightarrow> suggest_request \<Rightarrow> Suggestion option"

text \<open>\<^verbatim>\<open>proc?.data.label || 'Unknown'\<close> for the process with the given id.\<close>

definition process_label :: "ProcessNode list \<Rightarrow> string \<Rightarrow> string" where
  "process_label procs processId = label_or ''Unknown'' (find (\<lambda>p. node_id p = processId) procs)"

definition result_of :: "string \<Rightarrow> Suggestion \<Rightarrow> sim_result" where
  "result_of l res = \<lparr>processName = l, sim = simulation res, suggestion = ai_suggestion res\<rparr>"

text \<open>
  The \<^verbatim>\<open>for\<close> loop of phase 1, from index \<open>i\<close> on. It returns the state, the requests
  sent in order, and \<open>allResults\<close>, or \<open>None\<close> when a call threw and the loop was left.
\<close>

fun simulate_loop ::
  "remote \<Rightarrow> ProcessNode list \<Rightarrow> nat \<Rightarrow> nat \<Rightarrow> (string \<times> Employee list) list \<Rightarrow>
   sim_result list \<Rightarrow> page_state \<Rightarrow> page_state \<times> suggest_request list \<times> sim_result list option"
where
  "simulate_loop remote procs total' i [] allResults s = (s, [], Some allResults)"
| "simulate_loop remote procs total' i ((processId, staff) # rest) allResults s =
     (let label = process_label procs processId;
          s1 = s\<lparr>simProgress := (i + 1, total', label)\<rparr>;
          req = (processId, label, staff)
      in case remote i req of
           None \<Rightarrow> (s1, [req], None)
         | Some res \<Rightarrow>
             (let allResults' = allResults @ [result_of label res];
                  s2 = s1\<lparr>simResults := allResults'\<rparr>
              in case simulate_loop remote procs total' (i + 1) rest allResults' s2 of
                   (s', cs, r) \<Rightarrow> (s', req # cs, r)))"

text \<open>
  \<^verbatim>\<open>allResults.reduce((s, r) => s + r.simulation.f, acc)\<close>: reading a field of a missing
  \<^verbatim>\<open>simulation\<close> throws, here \<open>None\<close>.
\<close>

fun reduce_field :: "(Simulation \<Rightarrow> real) \<Rightarrow> real \<Rightarrow> sim_result list \<Rightarrow> real option" where
  "reduce_field f acc [] = Some acc"
| "reduce_field f acc (r # rs) =
     (case sim r of None \<Rightarrow> None | Some x \<Rightarrow> reduce_field f (acc + f x) rs)"

text \<open>\<^verbatim>\<open>allResults.some(r => r.simulation.is_bottleneck)\<close>\<close>

fun some_bottleneck :: "sim_result list \<Rightarrow> bool option" where
  "some_bottleneck [] = Some False"
| "some_bottleneck (r # rs) =
     (case sim r of
        None \<Rightarrow> None
      | Some x \<Rightarrow> if is_bottleneck x then Some True else some_bottleneck rs)"

text \<open>
  The aggregate of phase 2, its fields computed in the order of the object literal:
  \<^verbatim>\<open>reduce\<close> from 0, divided by the number of results. \<open>None\<close> when the computation
  throws.
\<close>

definition aggregate :: "sim_result list \<Rightarrow> Simulation option" where
  "aggregate allResults =
     (case reduce_field cycle_time_before 0 allResults of None \<Rightarrow> None | Some before \<Rightarrow>
      case reduce_field cycle_time_after 0 allResults of None \<Rightarrow> None | Some after \<Rightarrow>
      case reduce_field cycle_reduction_pct 0 allResults of None \<Rightarrow> None | Some reduction \<Rightarrow>
      case reduce_field throughput_gain_pct 0 allResults of None \<Rightarrow> None | Some gain \<Rightarrow>
      case reduce_field opex_increase 0 allResults of None \<Rightarrow> None | Some opex \<Rightarrow>
      case some_bottleneck allResults of None \<Rightarrow> None | Some bottleneck \<Rightarrow>
      case reduce_field impact_score 0 allResults of None \<Rightarrow> None | Some impact \<Rightarrow>
        Some \<lparr>cycle_time_before = before / real (length allResults),
              cycle_time_after = after / real (length allResults),
              cycle_reduction_pct = reduction / real (length allResults),
              throughput_gain_pct = gain / real (length allResults),
              opex_increase = opex,
              is_bottleneck = bottleneck,
              impact_score = impact / real (length allResults)\<rparr>)"

text \<open>
  What one run of \<^verbatim>\<open>runFullSimulation\<close> does: the state it leaves, the remote calls it
  made and the calls of \<^verbatim>\<open>setSimPhase\<close>, both in order.
\<close>

record run_outcome =
  final :: page_state
  calls :: "suggest_request list"
  phases :: "phase list"

definition assignedProcesses :: "page_state \<Rightarrow> (string \<times> Employee list) list" where
  "assignedProcesses s = filter (\<lambda>(processId, staff). length staff > 0) (assignments s)"

definition runFullSimulation :: "remote \<Rightarrow> page_state \<Rightarrow> run_outcome" where
  "runFullSimulation remote s =
     (if length (assignedProcesses s) = 0 then
        \<lparr>final = showToast (''No employees assigned yet'', Error, Some 3000) s,
         calls = [], phases = []\<rparr>
      else
        let s0 = s\<lparr>showSimModal := True, simPhase := Simulating,
                   simResults := [], simAggregate := None\<rparr>
        in case simulate_loop remote (processes s) (length (assignedProcesses s)) 0
                  (assignedProcesses s) [] s0 of
             (s1, cs, None) \<Rightarrow>
               \<lparr>final = (showToast (''Simulation failed'', Error, None) s1)
                           \<lparr>showSimModal := False, simPhase := Idle\<rparr>,
                calls = cs, phases = [Simulating, Idle]\<rparr>
           | (s1, cs, Some allResults) \<Rightarrow>
               (let s2 = s1\<lparr>simPhase := Analyzing\<rparr> in
                case aggregate allResults of
                  None \<Rightarrow>
                    \<lparr>final = (showToast (''Simulation failed'', Error, None) s2)
                                \<lparr>showSimModal := False, simPhase := Idle\<rparr>,
                     calls = cs, phases = [Simulating, Analyzing, Idle]\<rparr>
                | Some agg \<Rightarrow>
                    \<lparr>final = s2\<lparr>simAggregate := Some agg\<rparr>\<lparr>simPhase := Complete\<rparr>,
                     calls = cs, phases = [Simulating, Analyzing, Complete]\<rparr>))"

text \<open>The arithmetic mean, as the specification words it.\<close>

definition mean :: "real list \<Rightarrow> real" where
  "mean xs = sum_list xs / real (length xs)"

text \<open>
  The request of each non-empty location in ledger order, the answers the remote gives
  when they are sent in that order, and the number of answers before the first call that
  throws.
\<close>

definition req_of :: "ProcessNode list \<Rightarrow> string \<times> Employee list \<Rightarrow> suggest_request" where
  "req_of procs e = (fst e, process_label procs (fst e), snd e)"

definition requests :: "page_state \<Rightarrow> suggest_request list" where
  "requests s = map (req_of (processes s)) (assignedProcesses s)"

definition responses :: "remote \<Rightarrow> nat \<Rightarrow> suggest_request list \<Rightarrow> Suggestion option list" where
  "responses remote i reqs = map (\<lambda>(j, req). remote j req) (enumerate i reqs)"

definition succeeded :: "remote \<Rightarrow> page_state \<Rightarrow> nat" where
  "succeeded remote s = length (takeWhile (\<lambda>x. x \<noteq> None) (responses remote 0 (requests s)))"

text \<open>The entries built from the answers that came before the first call that throws.\<close>

definition collected ::
  "ProcessNode list \<Rightarrow> (string \<times> Employee list) list \<Rightarrow> Suggestion option list \<Rightarrow>
   sim_result list" where
  "collected procs es rs =
     map (\<lambda>(e, r). result_of (process_label procs (fst e)) (the r))
       (takeWhile (\<lambda>(e, r). r \<noteq> None) (zip es rs))"

text \<open>
  The state after the setters that open a run, and the loop of phase 1 started from it.
\<close>

definition start_state :: "page_state \<Rightarrow> page_state" where
  "start_state s = s\<lparr>showSimModal := True, simPhase := Simulating,
                      simResults := [], simAggregate := None\<rparr>"

definition the_loop :: "remote \<Rightarrow> page_state \<Rightarrow> page_state \<times> suggest_request list \<times> sim_result list option" where
  "the_loop remote s = simulate_loop remote (processes s) (length (assignedProcesses s)) 0
                  (assignedProcesses s) [] (start_state s)"

section \<open>The chat transport of FloatingChatbot.tsx\<close>

text \<open>
  \<^verbatim>\<open>trim\<close> depends on which characters are white space, so chat texts are lists of
  UTF-16 code units.
\<close>

type_synonym jsstring = "nat list"

definition ascii :: "string \<Rightarrow> jsstring" where
  "ascii cs = map of_char cs"

text \<open>White space and line terminators of ECMAScript, the characters \<^verbatim>\<open>trim\<close> strips.\<close>

definition js_whitespace :: "nat \<Rightarrow> bool" where
  "js_whitespace c =
     (c = 9 \<or> c = 10 \<or> c = 11 \<or> c = 12 \<or> c = 13 \<or> c = 32 \<or> c = 160 \<or> c = 5760
      \<or> (8192 \<le> c \<and> c \<le> 8202) \<or> c = 8232 \<or> c = 8233 \<or> c = 8239 \<or> c = 8287
      \<or> c = 12288 \<or> c = 65279)"

definition js_trim :: "jsstring \<Rightarrow> jsstring" where
  "js_trim cs = rev (dropWhile js_whitespace (rev (dropWhile js_whitespace cs)))"

datatype sender = User | Bot

record Message =
  msg_id :: nat
  msg_text :: jsstring
  sender :: sender
  timestamp :: nat

datatype connection_status = Connecting | Connected | Disconnected

datatype ready_state = CONNECTING | OPEN | CLOSING | CLOSED

text \<open>
  The state of the component. \<open>sockets\<close> holds the \<^verbatim>\<open>readyState\<close> of every
  \<^verbatim>\<open>WebSocket\<close> created so far, \<open>ws\<close> is \<^verbatim>\<open>ws.current\<close> as an index into it, and
  \<open>sent\<close> logs the calls of \<^verbatim>\<open>send\<close> with the socket they went to.
\<close>

record chat_state =
  messages :: "Message list"
  inputValue :: jsstring
  isLoading :: bool
  connectionStatus :: connection_status
  sockets :: "ready_state list"
  ws :: "nat option"
  sent :: "(nat \<times> jsstring) list"

definition INTRO_MESSAGE :: "nat \<Rightarrow> Message" where
  "INTRO_MESSAGE t =
     \<lparr>msg_id = 1,
      msg_text = ascii (''Hello! I'' @ [CHR 0x27] @ ''m your AI process assistant. '' @
                        ''How can I help you optimize your workflow today?''),
      sender = Bot, timestamp = t\<rparr>"

text \<open>The state of the first render, at time \<open>t\<close>, before any effect has run.\<close>

definition initial_chat :: "nat \<Rightarrow> chat_state" where
  "initial_chat t =
     \<lparr>messages = [INTRO_MESSAGE t], inputValue = [], isLoading = False,
      connectionStatus = Connecting, sockets = [], ws = None, sent = []\<rparr>"

text \<open>\<^verbatim>\<open>ws.current?.readyState === WebSocket.OPEN\<close>\<close>

definition ws_open :: "chat_state \<Rightarrow> bool" where
  "ws_open s = (case ws s of None \<Rightarrow> False | Some i \<Rightarrow> js_index (sockets s) i = Some OPEN)"

definition connectWebSocket :: "chat_state \<Rightarrow> chat_state" where
  "connectWebSocket s =
     (if ws_open s then s
      else s\<lparr>connectionStatus := Connecting,
             sockets := sockets s @ [CONNECTING],
             ws := Some (length (sockets s))\<rparr>)"

definition warning_text :: jsstring where
  "warning_text = [9888, 65039] @ ascii '' Disconnected. Reconnecting...''"

text \<open>
  \<^verbatim>\<open>handleSendMessage\<close>; \<open>now k\<close> is the \<open>k\<close>-th reading of the clock inside the
  handler.
\<close>

definition handleSendMessage :: "(nat \<Rightarrow> nat) \<Rightarrow> chat_state \<Rightarrow> chat_state" where
  "handleSendMessage now s =
     (if js_trim (inputValue s) = [] \<or> isLoading s then s
      else
        let userMsg = \<lparr>msg_id = now 0, msg_text = inputValue s, sender = User,
                       timestamp = now 1\<rparr>;
            s1 = s\<lparr>messages := messages s @ [userMsg], inputValue := [], isLoading := True\<rparr>
        in if ws_open s1 then
             (case ws s1 of
                None \<Rightarrow> s1
              | Some i \<Rightarrow> s1\<lparr>sent := sent s1 @ [(i, msg_text userMsg)]\<rparr>)
           else
             connectWebSocket
               (s1\<lparr>messages := messages s1 @
                                   [\<lparr>msg_id = now 2 + 1, msg_text = warning_text, sender = Bot,
                                     timestamp = now 3\<rparr>],
                    isLoading := False\<rparr>))"

text \<open>
  What can happen to the component: the two mount effects (connect at once, connect again
  after one second if the current socket is not open), the reconnect button, typing,
  sending, clearing, and the callbacks of a socket. The browser opens a socket that is
  connecting and closes one that is not yet closed; an event for a socket in another
  state does nothing.
\<close>

datatype chat_event =
    Mount
  | ReconnectTimer
  | ReconnectClick
  | SetInput jsstring
  | Send "nat \<Rightarrow> nat"
  | ClearChat nat
  | SocketOpen nat
  | SocketMessage nat jsstring nat
  | SocketClose nat
  | SocketError nat

fun chat_step :: "chat_state \<Rightarrow> chat_event \<Rightarrow> chat_state" where
  "chat_step s Mount = connectWebSocket s"
| "chat_step s ReconnectTimer = (if \<not> ws_open s then connectWebSocket s else s)"
| "chat_step s ReconnectClick = connectWebSocket s"
| "chat_step s (SetInput v) = s\<lparr>inputValue := v\<rparr>"
| "chat_step s (Send now) = handleSendMessage now s"
| "chat_step s (ClearChat t) = s\<lparr>messages := [INTRO_MESSAGE t]\<rparr>"
| "chat_step s (SocketOpen i) =
     (if js_index (sockets s) i = Some CONNECTING
      then s\<lparr>sockets := (sockets s)[i := OPEN], connectionStatus := Connected\<rparr>
      else s)"
| "chat_step s (SocketMessage i m t) =
     (if js_index (sockets s) i = Some OPEN
      then s\<lparr>messages := messages s @ [\<lparr>msg_id = t, msg_text = m, sender = Bot, timestamp = t\<rparr>],
             isLoading := False\<rparr>
      else s)"
| "chat_step s (SocketClose i) =
     (if i < length (sockets s) \<and> js_index (sockets s) i \<noteq> Some CLOSED
      then s\<lparr>sockets := (sockets s)[i := CLOSED], connectionStatus := Disconnected\<rparr>
      else s)"
| "chat_step s (SocketError i) =
     (if i < length (sockets s) \<and> js_index (sockets s) i \<noteq> Some CLOSED
      then s\<lparr>connectionStatus := Disconnected\<rparr>
      else s)"

definition run_chat :: "nat \<Rightarrow> chat_event list \<Rightarrow> chat_state" where
  "run_chat t evs = foldl chat_step (initial_chat t) evs"

text \<open>A clock that reads \<open>t\<close> each time, for the examples.\<close>

definition fixed_clock :: "nat \<Rightarrow> nat \<Rightarrow> nat" where
  "fixed_clock t k = t"

section \<open>The auto-scroll loop of WorkforcePage.tsx\<close>

definition EDGE_SIZE :: real where
  "EDGE_SIZE = 80"

definition SCROLL_SPEED :: real where
  "SCROLL_SPEED = 8"

text \<open>
  A scrollable element: top and bottom of its bounding rectangle and its \<^verbatim>\<open>scrollTop\<close>.
  The assignment to \<^verbatim>\<open>scrollTop\<close> is modelled as written; that the browser clamps
  what is assigned to the scrollable range is not part of the source.
\<close>

record region =
  rect_top :: real
  rect_bottom :: real
  scrollTop :: real

text \<open>One of the two \<^verbatim>\<open>if\<close>/\<^verbatim>\<open>else if\<close> blocks of \<^verbatim>\<open>handleMouseMove\<close>.\<close>

definition scroll_region :: "real \<Rightarrow> region \<Rightarrow> region" where
  "scroll_region y el =
     (if y < rect_top el + EDGE_SIZE \<and> y > rect_top el then
        el\<lparr>scrollTop := scrollTop el - SCROLL_SPEED * (1 - (y - rect_top el) / EDGE_SIZE)\<rparr>
      else if y > rect_bottom el - EDGE_SIZE \<and> y < rect_bottom el then
        el\<lparr>scrollTop := scrollTop el + SCROLL_SPEED * (1 - (rect_bottom el - y) / EDGE_SIZE)\<rparr>
      else el)"

text \<open>
  The two refs (\<open>None\<close> while an element is not mounted) and the last mouse event's
  \<^verbatim>\<open>clientY\<close>. The drag flag \<^verbatim>\<open>isDraggingRef.current\<close> is passed in.
\<close>

record scroll_state =
  scrollEl :: "region option"
  poolEl :: "region option"
  lastMouseEvent :: "real option"

definition handleMouseMove :: "bool \<Rightarrow> real \<Rightarrow> scroll_state \<Rightarrow> scroll_state" where
  "handleMouseMove dragging y s =
     (if \<not> dragging then s
      else s\<lparr>scrollEl := map_option (scroll_region y) (scrollEl s),
             poolEl := map_option (scroll_region y) (poolEl s)\<rparr>)"

definition onMouseMove :: "real \<Rightarrow> scroll_state \<Rightarrow> scroll_state" where
  "onMouseMove y s = s\<lparr>lastMouseEvent := Some y\<rparr>"

definition tick :: "bool \<Rightarrow> scroll_state \<Rightarrow> scroll_state" where
  "tick dragging s =
     (case lastMouseEvent s of
        None \<Rightarrow> s
      | Some y \<Rightarrow> if dragging then handleMouseMove dragging y s else s)"

text \<open>The two conditions of \<open>scroll_region\<close>: the pointer is strictly inside a band.\<close>

definition in_top_band :: "real \<Rightarrow> region \<Rightarrow> bool" where
  "in_top_band y el = (rect_top el < y \<and> y < rect_top el + EDGE_SIZE)"

definition in_bottom_band :: "real \<Rightarrow> region \<Rightarrow> bool" where
  "in_bottom_band y el = (rect_bottom el - EDGE_SIZE < y \<and> y < rect_bottom el)"

section \<open>Drag gestures used in the examples\<close>

definition pool_loc :: "nat \<Rightarrow> DraggableLocation" where
  "pool_loc i = \<lparr>droppableId = ''employee-pool'', index = i\<rparr>"

definition process_loc :: "string \<Rightarrow> nat \<Rightarrow> DraggableLocation" where
  "process_loc pid i = \<lparr>droppableId = ''process-'' @ pid, index = i\<rparr>"

definition drop_on :: "DraggableLocation \<Rightarrow> DraggableLocation \<Rightarrow> DropResult" where
  "drop_on src dst = \<lparr>source = src, destination = Some dst\<rparr>"

definition node1 :: ProcessNode where
  "node1 = \<lparr>node_id = ''n1'', label = ''Create Order'', isBottleneck = True, avgDuration = 2\<rparr>"

definition wa_loc :: "string \<Rightarrow> nat \<Rightarrow> DraggableLocation" where
  "wa_loc d i = \<lparr>droppableId = d, index = i\<rparr>"

definition node2 :: ProcessNode where
  "node2 = \<lparr>node_id = ''n2'', label = ''Approve Order'', isBottleneck = False, avgDuration = 1\<rparr>"

definition node3 :: ProcessNode where
  "node3 = \<lparr>node_id = ''n3'', label = ''Clear Invoice'', isBottleneck = False, avgDuration = 3\<rparr>"

section \<open>Example runs\<close>

text \<open>Three locations with one worker each, reached by three drags from the pool.\<close>

definition three_assigned :: page_state where
  "three_assigned = run_ledger [node1, node2, node3]
     [DragEnd (drop_on (pool_loc 0) (process_loc ''n1'' 0)),
      DragEnd (drop_on (pool_loc 0) (process_loc ''n2'' 0)),
      DragEnd (drop_on (pool_loc 0) (process_loc ''n3'' 0))]"

text \<open>The ledger \<^verbatim>\<open>{n1: [w1], n2: []}\<close>.\<close>

definition one_assigned :: page_state where
  "one_assigned = run_ledger [node1, node2]
     [DragEnd (drop_on (pool_loc 0) (process_loc ''n1'' 0))]"

definition example_suggestion :: "real \<Rightarrow> bool \<Rightarrow> Suggestion" where
  "example_suggestion c b =
     \<lparr>simulation = Some \<lparr>cycle_time_before = 10, cycle_time_after = 8, cycle_reduction_pct = c,
                          throughput_gain_pct = 5, opex_increase = 2, is_bottleneck = b,
                          impact_score = 1\<rparr>,
      ai_suggestion = Some ''ok''\<rparr>"

text \<open>The body of an HTTP error such as \<^verbatim>\<open>{"detail": "Internal Server Error"}\<close>.\<close>

definition error_body :: Suggestion where
  "error_body = \<lparr>simulation = None, ai_suggestion = None\<rparr>"

text \<open>
  A remote that answers every call, one whose second call throws, and one whose second
  answer is an error body.
\<close>

definition remote_ok :: remote where
  "remote_ok i req = Some (example_suggestion (10 * (real i + 1)) (i = 1))"

definition remote_fail_second :: remote where
  "remote_fail_second i req = (if i = 1 then None else Some (example_suggestion 10 False))"

definition remote_error_second :: remote where
  "remote_error_second i req =
     (if i = 1 then Some error_body else Some (example_suggestion 10 False))"

section \<open>Facts about the helpers\<close>

lemma js_index_Some: "js_index xs i = Some x \<Longrightarrow> i < length xs \<and> xs ! i = x"
  by (auto simp: js_index_def split: if_splits)

lemma mset_splice_remove:
  "i < length xs \<Longrightarrow> mset (splice_remove i xs) + {#xs ! i#} = mset xs"
proof -
  assume a: "i < length xs"
  have "mset xs = mset (take i xs @ (xs ! i) # drop (Suc i) xs)"
    using a by (simp add: id_take_nth_drop [symmetric])
  then show ?thesis by (simp add: splice_remove_def)
qed

lemma mset_obj_replace:
  "map_of m k = Some old \<Longrightarrow>
   mset (concat (map snd (obj_replace k v m))) + mset old = mset (concat (map snd m)) + mset v"
  by (induction k v m rule: obj_replace.induct) (auto split: if_splits)

lemma mset_obj_insert:
  "mset (concat (map snd (obj_insert k v m))) = mset (concat (map snd m)) + mset v"
  by (induction k v m rule: obj_insert.induct) simp_all

lemma mset_obj_set:
  "mset (concat (map snd (obj_set k v m))) + mset (staff_of m k)
     = mset (concat (map snd m)) + mset v"
proof (cases "map_of m k")
  case None
  then show ?thesis by (simp add: obj_set_def staff_of_def obj_get_def mset_obj_insert)
next
  case (Some old)
  then show ?thesis
    using mset_obj_replace [OF Some, of v] by (simp add: obj_set_def staff_of_def obj_get_def)
qed

lemma keys_obj_replace: "map fst (obj_replace k v m) = map fst m"
  by (induction k v m rule: obj_replace.induct) simp_all

lemma keys_obj_insert: "mset (map fst (obj_insert k v m)) = mset (map fst m) + {#k#}"
  by (induction k v m rule: obj_insert.induct) auto

text \<open>What evaluates \<open>obj_set\<close> on a concrete key.\<close>

lemmas obj_eval = obj_set_def array_index_def is_digit_def

text \<open>
  Keys that are array indices are listed first, in numeric order, wherever they were
  created; \<^verbatim>\<open>"01"\<close> is no array index.
\<close>

lemma index_keys_first:
  "map fst (foldl (\<lambda>m k. obj_set k (0::nat) m) [] [''b'', ''2'', ''a'', ''1'', ''10'', ''01''])
     = [''1'', ''2'', ''10'', ''b'', ''a'', ''01'']"
  by (simp add: obj_eval digits_value_def)

lemma index_ids_initial_state:
  "map fst (assignments (initial_state
       [\<lparr>node_id = ''2'', label = ''B'', isBottleneck = False, avgDuration = 1\<rparr>,
        \<lparr>node_id = ''1'', label = ''A'', isBottleneck = False, avgDuration = 1\<rparr>]))
     = [''1'', ''2'']"
  by (simp add: initial_state_def obj_eval digits_value_def)

lemma distinct_keys_obj_set:
  assumes "distinct (map fst m)"
  shows "distinct (map fst (obj_set k v m))"
proof (cases "map_of m k")
  case None
  then have k: "k \<notin> set (map fst m)"
    by (simp add: map_of_eq_None_iff)
  have "mset (map fst (obj_insert k v m)) = mset (k # map fst m)"
    using keys_obj_insert [of k v m] by simp
  moreover have "distinct (k # map fst m)"
    using assms k by simp
  ultimately have "distinct (map fst (obj_insert k v m))"
    using mset_eq_imp_distinct_iff by blast
  then show ?thesis using None by (simp add: obj_set_def)
next
  case (Some old)
  then show ?thesis using assms by (simp add: obj_set_def keys_obj_replace)
qed

lemma map_of_obj_replace_same:
  "map_of m k = Some old \<Longrightarrow> map_of (obj_replace k v m) k = Some v"
  by (induction k v m rule: obj_replace.induct) (auto split: if_splits)

lemma map_of_obj_replace_other:
  "k' \<noteq> k \<Longrightarrow> map_of (obj_replace k v m) k' = map_of m k'"
  by (induction k v m rule: obj_replace.induct) auto

lemma map_of_obj_insert_same:
  "map_of m k = None \<Longrightarrow> map_of (obj_insert k v m) k = Some v"
  by (induction k v m rule: obj_insert.induct) (auto split: if_splits)

lemma map_of_obj_insert_other:
  "k' \<noteq> k \<Longrightarrow> map_of (obj_insert k v m) k' = map_of m k'"
  by (induction k v m rule: obj_insert.induct) auto

lemma staff_of_obj_set_same: "staff_of (obj_set k v m) k = v"
proof (cases "map_of m k")
  case None
  then show ?thesis
    by (simp add: obj_set_def staff_of_def obj_get_def map_of_obj_insert_same)
next
  case (Some old)
  then show ?thesis
    by (simp add: obj_set_def staff_of_def obj_get_def map_of_obj_replace_same [OF Some])
qed

lemma staff_of_obj_set_other: "k' \<noteq> k \<Longrightarrow> staff_of (obj_set k v m) k' = staff_of m k'"
  by (simp add: obj_set_def staff_of_def obj_get_def map_of_obj_insert_other
        map_of_obj_replace_other)

lemma mset_move_in:
  assumes "i < length pool" and "pool ! i = d"
  shows "mset (splice_remove i pool) + mset (concat (map snd (obj_set k (staff_of m k @ [d]) m)))
           = mset pool + mset (concat (map snd m))"
proof -
  have a: "mset (splice_remove i pool) + {#d#} = mset pool"
    using mset_splice_remove [OF assms(1)] assms(2) by simp
  have "mset (concat (map snd (obj_set k (staff_of m k @ [d]) m))) + mset (staff_of m k)
          = (mset (concat (map snd m)) + {#d#}) + mset (staff_of m k)"
    using mset_obj_set [of k "staff_of m k @ [d]" m] by (simp add: ac_simps)
  then have b: "mset (concat (map snd (obj_set k (staff_of m k @ [d]) m)))
          = mset (concat (map snd m)) + {#d#}"
    by (simp only: add_right_cancel)
  show ?thesis unfolding b using a by (simp add: ac_simps)
qed

lemma mset_move_out:
  assumes "i < length (staff_of m k)" and "staff_of m k ! i = d"
  shows "mset (pool @ [d]) + mset (concat (map snd (obj_set k (splice_remove i (staff_of m k)) m)))
           = mset pool + mset (concat (map snd m))"
proof -
  have a: "mset (splice_remove i (staff_of m k)) + {#d#} = mset (staff_of m k)"
    using mset_splice_remove [OF assms(1)] assms(2) by simp
  have "mset (concat (map snd (obj_set k (splice_remove i (staff_of m k)) m))) + mset (staff_of m k)
          = mset (concat (map snd m)) + mset (splice_remove i (staff_of m k))"
    by (rule mset_obj_set)
  then have "(mset (concat (map snd (obj_set k (splice_remove i (staff_of m k)) m))) + {#d#})
               + mset (splice_remove i (staff_of m k))
          = mset (concat (map snd m)) + mset (splice_remove i (staff_of m k))"
    unfolding a [symmetric] by (simp add: ac_simps)
  then have b: "mset (concat (map snd (obj_set k (splice_remove i (staff_of m k)) m))) + {#d#}
          = mset (concat (map snd m))"
    by (simp only: add_right_cancel)
  show ?thesis unfolding b [symmetric] by (simp add: ac_simps)
qed

subsection \<open>Every ledger operation keeps the workers\<close>

lemma all_workers_assign:
  "js_index (availableStaff s) i = Some d \<Longrightarrow>
   mset (all_workers (assign_to_process i d dest s)) = mset (all_workers s)"
  using mset_move_in [of i "availableStaff s" d "replace_first ''process-'' [] dest" "assignments s"]
  by (auto simp: assign_to_process_def all_workers_def showToast_def Let_def
           dest!: js_index_Some split: option.splits)

lemma all_workers_return:
  "js_index (staff_of (assignments s) k) i = Some d \<Longrightarrow>
   mset (all_workers (return_to_pool k i d s)) = mset (all_workers s)"
  using mset_move_out [of i "assignments s" k d "availableStaff s"]
  by (auto simp: return_to_pool_def all_workers_def showToast_def Let_def dest!: js_index_Some)

lemma all_workers_remove:
  "mset (all_workers (removeFromProcess k i s)) = mset (all_workers s)"
proof (cases "js_index (staff_of (assignments s) k) i")
  case None
  then show ?thesis by (simp add: removeFromProcess_def)
next
  case (Some d)
  then show ?thesis
    using mset_move_out [of i "assignments s" k d "availableStaff s"]
    by (auto simp: removeFromProcess_def all_workers_def showToast_def dest!: js_index_Some)
qed

lemma all_workers_onDragEnd:
  "mset (all_workers (onDragEnd r s)) = mset (all_workers s)"
proof -
  have 0: "all_workers (s\<lparr>isDragging := False\<rparr>) = all_workers s"
    by (simp add: all_workers_def)
  have 1: "js_index (availableStaff s) i = Some d \<Longrightarrow>
     mset (all_workers (assign_to_process i d dest (s\<lparr>isDragging := False\<rparr>))) = mset (all_workers s)"
    for i d dest
    using all_workers_assign [of "s\<lparr>isDragging := False\<rparr>" i d dest] 0 by simp
  have 2: "js_index (staff_of (assignments s) k) i = Some d \<Longrightarrow>
     mset (all_workers (return_to_pool k i d (s\<lparr>isDragging := False\<rparr>))) = mset (all_workers s)"
    for i d k
    using all_workers_return [of "s\<lparr>isDragging := False\<rparr>" k i d] 0 by simp
  show ?thesis
    by (simp add: onDragEnd_def Let_def 0 1 2 split: option.splits)
qed

lemma keys_onDragEnd: "distinct (map fst (assignments s)) \<Longrightarrow> distinct (map fst (assignments (onDragEnd r s)))"
  by (simp add: onDragEnd_def Let_def assign_to_process_def return_to_pool_def showToast_def
        distinct_keys_obj_set split: option.splits)

lemma keys_removeFromProcess:
  "distinct (map fst (assignments s)) \<Longrightarrow> distinct (map fst (assignments (removeFromProcess k i s)))"
  by (simp add: removeFromProcess_def showToast_def distinct_keys_obj_set split: option.splits)

lemma ledger_step_keeps:
  "mset (all_workers (ledger_step s e)) = mset (all_workers s)"
  by (cases e) (simp_all add: all_workers_onDragEnd all_workers_remove)

lemma ledger_step_keys:
  "distinct (map fst (assignments s)) \<Longrightarrow> distinct (map fst (assignments (ledger_step s e)))"
  by (cases e) (simp_all add: keys_onDragEnd keys_removeFromProcess)

lemma foldl_ledger_keeps:
  "mset (all_workers (foldl ledger_step s evs)) = mset (all_workers s)"
  by (induction evs arbitrary: s) (simp_all add: ledger_step_keeps)

lemma foldl_ledger_keys:
  "distinct (map fst (assignments s)) \<Longrightarrow> distinct (map fst (assignments (foldl ledger_step s evs)))"
  by (induction evs arbitrary: s) (simp_all add: ledger_step_keys)

lemma empty_obj_set:
  fixes m :: "(string \<times> Employee list) list"
  assumes "concat (map snd m) = []"
  shows "concat (map snd (obj_set k [] m)) = []"
proof -
  have "mset (concat (map snd (obj_set k [] m))) + mset (staff_of m k) = {#}"
    using mset_obj_set [of k "[]" m] assms by simp
  then show ?thesis by simp
qed

lemma initial_assignments:
  fixes m0 :: "(string \<times> Employee list) list"
  assumes "concat (map snd m0) = []" and "distinct (map fst m0)"
  shows "concat (map snd (foldl (\<lambda>m n. obj_set (node_id n) [] m) m0 procs)) = []
   \<and> distinct (map fst (foldl (\<lambda>m n. obj_set (node_id n) [] m) m0 procs))"
  using assms
proof (induction procs arbitrary: m0)
  case Nil
  then show ?case by simp
next
  case (Cons p procs)
  have "concat (map snd (obj_set (node_id p) [] m0)) = []"
    using Cons.prems(1) by (rule empty_obj_set)
  moreover have "distinct (map fst (obj_set (node_id p) [] m0))"
    using Cons.prems(2) by (rule distinct_keys_obj_set)
  ultimately show ?case using Cons.IH [of "obj_set (node_id p) [] m0"] by simp
qed

lemma all_workers_initial: "all_workers (initial_state procs) = initialEmployees"
  using initial_assignments [of "[]" procs] by (simp add: all_workers_def initial_state_def)

lemma keys_initial: "distinct (map fst (assignments (initial_state procs)))"
  using initial_assignments [of "[]" procs] by (simp add: initial_state_def)

lemma distinct_initialEmployees: "distinct (map emp_id initialEmployees)"
  by (simp add: initialEmployees_def)

subsection \<open>The ledger invariant\<close>

text \<open>
  C2: in every ledger state reached from the initial state (all workers in the pool, every
  process location empty) by drag transfers and return-to-pool removals, the pool and the
  process sequences together hold exactly the full worker set, every worker id once, and
  every location has one sequence.
\<close>

theorem ledger_invariant:
  "mset (all_workers (run_ledger procs evs)) = mset initialEmployees
   \<and> distinct (map emp_id (all_workers (run_ledger procs evs)))
   \<and> distinct (map fst (assignments (run_ledger procs evs)))"
proof -
  have m: "mset (all_workers (run_ledger procs evs)) = mset initialEmployees"
    by (simp add: run_ledger_def foldl_ledger_keeps all_workers_initial)
  then have "mset (map emp_id (all_workers (run_ledger procs evs))) = mset (map emp_id initialEmployees)"
    by (metis mset_map)
  then have d: "distinct (map emp_id (all_workers (run_ledger procs evs)))"
    using distinct_initialEmployees mset_eq_imp_distinct_iff by blast
  have k: "distinct (map fst (assignments (run_ledger procs evs)))"
    by (simp add: run_ledger_def foldl_ledger_keys keys_initial)
  from m d k show ?thesis by simp
qed

lemma startsWith_process: "startsWith ''process-'' (''process-'' @ pid)"
  by (simp add: startsWith_def)

lemma replace_first_process: "replace_first ''process-'' [] (''process-'' @ pid) = pid"
  by simp

lemma process_not_pool: "''process-'' @ pid \<noteq> ''employee-pool''"
  by simp

lemma length_splice_move:
  "i < length xs \<Longrightarrow> length (splice_insert d x (splice_remove i xs)) = length xs"
  by (auto simp: splice_insert_def splice_remove_def)

lemma splice_insert_nth: "d \<le> length xs \<Longrightarrow> splice_insert d x xs ! d = x"
  by (simp add: splice_insert_def nth_append)

lemma mset_splice_insert: "mset (splice_insert d x xs) = mset xs + {#x#}"
proof -
  have "mset (take d xs) + mset (drop d xs) = mset xs"
    by (metis append_take_drop_id mset_append)
  then show ?thesis by (simp add: splice_insert_def)
qed

lemma pool_to_process:
  assumes "droppableId src = ''employee-pool''" and "droppableId dst = ''process-'' @ pid"
    and "index src < length (availableStaff s)"
  shows "onDragEnd \<lparr>source = src, destination = Some dst\<rparr> s
           = assign_to_process (index src) (availableStaff s ! index src) (''process-'' @ pid)
               (s\<lparr>isDragging := False\<rparr>)"
  using assms by (simp add: onDragEnd_def Let_def js_index_def startsWith_def)

lemma process_to_pool:
  assumes "droppableId src = ''process-'' @ pid" and "droppableId dst = ''employee-pool''"
    and "index src < length (staff_of (assignments s) pid)"
  shows "onDragEnd \<lparr>source = src, destination = Some dst\<rparr> s
           = return_to_pool pid (index src) (staff_of (assignments s) pid ! index src)
               (s\<lparr>isDragging := False\<rparr>)"
  using assms by (simp add: onDragEnd_def Let_def js_index_def startsWith_def)

lemma process_to_process:
  assumes "droppableId src = ''process-'' @ pid" and "droppableId dst = ''process-'' @ qid"
  shows "onDragEnd \<lparr>source = src, destination = Some dst\<rparr> s = s\<lparr>isDragging := False\<rparr>"
  using assms by (simp add: onDragEnd_def Let_def js_index_def startsWith_def split: option.splits)

lemma assign_fields:
  "availableStaff (assign_to_process i d dest s) = splice_remove i (availableStaff s)"
  "assignments (assign_to_process i d dest s)
     = obj_set (replace_first ''process-'' [] dest)
         (staff_of (assignments s) (replace_first ''process-'' [] dest) @ [d]) (assignments s)"
  by (simp_all add: assign_to_process_def Let_def showToast_def split: option.splits)

lemma return_fields:
  "availableStaff (return_to_pool pid i d s) = availableStaff s @ [d]"
  "assignments (return_to_pool pid i d s)
     = obj_set pid (splice_remove i (staff_of (assignments s) pid)) (assignments s)"
  by (simp_all add: return_to_pool_def Let_def showToast_def)

lemma same_droppable:
  "droppableId src = droppableId dst \<Longrightarrow>
   onDragEnd \<lparr>source = src, destination = Some dst\<rparr> s = s\<lparr>isDragging := False\<rparr>"
  by (simp add: onDragEnd_def Let_def)

lemma wa_reorder:
  assumes "droppableId src = droppableId dst"
    and "index src < length (list_of_wa (droppableId src) a)"
  shows "\<exists>a'. onDragEnd_wa \<lparr>source = src, destination = Some dst\<rparr> a = Inr a'
     \<and> list_of_wa (droppableId src) a'
         = splice_insert (index dst) (list_of_wa (droppableId src) a ! index src)
             (splice_remove (index src) (list_of_wa (droppableId src) a))
     \<and> length (list_of_wa (droppableId src) a') = length (list_of_wa (droppableId src) a)
     \<and> (if droppableId src = ''available''
         then assignedStaff_wa a' = assignedStaff_wa a
         else availableStaff_wa a' = availableStaff_wa a)"
  using assms
  by (auto simp: onDragEnd_wa_def Let_def js_index_def list_of_wa_def length_splice_move)

lemma wa_move:
  assumes "(droppableId src = ''available'') \<noteq> (droppableId dst = ''available'')"
    and "index src < length (list_of_wa (droppableId src) a)"
  shows "\<exists>a'. onDragEnd_wa \<lparr>source = src, destination = Some dst\<rparr> a = Inr a'
     \<and> list_of_wa (droppableId src) a' = splice_remove (index src) (list_of_wa (droppableId src) a)
     \<and> list_of_wa (droppableId dst) a'
         = splice_insert (index dst) (list_of_wa (droppableId src) a ! index src)
             (list_of_wa (droppableId dst) a)
     \<and> mset (availableStaff_wa a' @ assignedStaff_wa a')
         = mset (availableStaff_wa a @ assignedStaff_wa a)"
proof (cases "droppableId src = ''available''")
  case True
  with assms have d: "droppableId dst \<noteq> ''available''" and i: "index src < length (availableStaff_wa a)"
    by (auto simp: list_of_wa_def)
  show ?thesis
    using True d i mset_splice_remove [OF i]
    by (simp add: onDragEnd_wa_def Let_def js_index_def list_of_wa_def mset_splice_insert)
next
  case False
  with assms have d: "droppableId dst = ''available''" and i: "index src < length (assignedStaff_wa a)"
    by (auto simp: list_of_wa_def)
  show ?thesis
    using False d i mset_splice_remove [OF i]
    by (simp add: onDragEnd_wa_def Let_def js_index_def list_of_wa_def mset_splice_insert)
qed

subsection \<open>Moves between two locations\<close>

text \<open>
  C4, as stated, asks that a cross-location move inserts the worker at the destination
  index. On the page ledger the worker is appended: after dropping two pool workers on
  process \<open>n1\<close>, both at destination index 0, the first one is still at position 0.
\<close>

theorem cross_move_destIndex_counterexample:
  "staff_of (assignments (run_ledger [node1]
       [DragEnd (drop_on (pool_loc 0) (process_loc ''n1'' 0)),
        DragEnd (drop_on (pool_loc 0) (process_loc ''n1'' 0))])) ''n1''
     = [initialEmployees ! 0, initialEmployees ! 1]
   \<and> staff_of (assignments (run_ledger [node1]
       [DragEnd (drop_on (pool_loc 0) (process_loc ''n1'' 0)),
        DragEnd (drop_on (pool_loc 0) (process_loc ''n1'' 0))])) ''n1'' ! 0
     \<noteq> initialEmployees ! 1"
  by (simp add: run_ledger_def initial_state_def obj_eval node1_def drop_on_def pool_loc_def process_loc_def
      onDragEnd_def Let_def js_index_def startsWith_def assign_to_process_def showToast_def
      splice_remove_def staff_of_def obj_get_def initialEmployees_def label_or_def)

text \<open>
  C4, as the code has it: for a move between two different locations whose source holds a
  worker at the source index,
  \<^item> on the page ledger a pool-to-process move removes the worker from the pool and
    appends it at the end of that process's sequence, a process-to-pool move removes it
    from the process and appends it at the end of the pool (the destination index is not
    read), and every other process sequence is untouched;
  \<^item> on the page ledger a move from one process to another leaves the ledger as it is;
  \<^item> on the two-list ledger of WorkforceAllocation the worker is removed from the source
    list and inserted into the other list at the destination index (clamped to its length);
  \<^item> in each case the workers of all locations together stay the same multiset.
\<close>

theorem cross_location_move:
  "(droppableId src = ''employee-pool'' \<and> droppableId dst = ''process-'' @ pid
      \<and> index src < length (availableStaff s) \<longrightarrow>
      availableStaff (onDragEnd (drop_on src dst) s) = splice_remove (index src) (availableStaff s)
      \<and> staff_of (assignments (onDragEnd (drop_on src dst) s)) pid
           = staff_of (assignments s) pid @ [availableStaff s ! index src]
      \<and> (\<forall>q. q \<noteq> pid \<longrightarrow>
            staff_of (assignments (onDragEnd (drop_on src dst) s)) q = staff_of (assignments s) q))
   \<and> (droppableId src = ''process-'' @ pid \<and> droppableId dst = ''employee-pool''
      \<and> index src < length (staff_of (assignments s) pid) \<longrightarrow>
      staff_of (assignments (onDragEnd (drop_on src dst) s)) pid
           = splice_remove (index src) (staff_of (assignments s) pid)
      \<and> availableStaff (onDragEnd (drop_on src dst) s)
           = availableStaff s @ [staff_of (assignments s) pid ! index src]
      \<and> (\<forall>q. q \<noteq> pid \<longrightarrow>
            staff_of (assignments (onDragEnd (drop_on src dst) s)) q = staff_of (assignments s) q))
   \<and> (droppableId src = ''process-'' @ pid \<and> droppableId dst = ''process-'' @ qid \<longrightarrow>
      availableStaff (onDragEnd (drop_on src dst) s) = availableStaff s
      \<and> assignments (onDragEnd (drop_on src dst) s) = assignments s)
   \<and> ((droppableId src = ''available'') \<noteq> (droppableId dst = ''available'')
      \<and> index src < length (list_of_wa (droppableId src) a) \<longrightarrow>
      (\<exists>a'. onDragEnd_wa (drop_on src dst) a = Inr a'
         \<and> list_of_wa (droppableId src) a'
              = splice_remove (index src) (list_of_wa (droppableId src) a)
         \<and> list_of_wa (droppableId dst) a'
              = splice_insert (index dst) (list_of_wa (droppableId src) a ! index src)
                  (list_of_wa (droppableId dst) a)
         \<and> (index dst \<le> length (list_of_wa (droppableId dst) a) \<longrightarrow>
              list_of_wa (droppableId dst) a' ! index dst
                = list_of_wa (droppableId src) a ! index src)
         \<and> mset (availableStaff_wa a' @ assignedStaff_wa a')
              = mset (availableStaff_wa a @ assignedStaff_wa a)))
   \<and> mset (all_workers (onDragEnd (drop_on src dst) s)) = mset (all_workers s)"
proof -
  have 1: "availableStaff (onDragEnd (drop_on src dst) s) = splice_remove (index src) (availableStaff s)
      \<and> staff_of (assignments (onDragEnd (drop_on src dst) s)) pid
           = staff_of (assignments s) pid @ [availableStaff s ! index src]
      \<and> (\<forall>q. q \<noteq> pid \<longrightarrow>
            staff_of (assignments (onDragEnd (drop_on src dst) s)) q = staff_of (assignments s) q)"
    if "droppableId src = ''employee-pool''" "droppableId dst = ''process-'' @ pid"
       "index src < length (availableStaff s)"
    unfolding drop_on_def pool_to_process [OF that]
    by (simp add: assign_fields staff_of_obj_set_same
          staff_of_obj_set_other)
  have 2: "staff_of (assignments (onDragEnd (drop_on src dst) s)) pid
           = splice_remove (index src) (staff_of (assignments s) pid)
      \<and> availableStaff (onDragEnd (drop_on src dst) s)
           = availableStaff s @ [staff_of (assignments s) pid ! index src]
      \<and> (\<forall>q. q \<noteq> pid \<longrightarrow>
            staff_of (assignments (onDragEnd (drop_on src dst) s)) q = staff_of (assignments s) q)"
    if "droppableId src = ''process-'' @ pid" "droppableId dst = ''employee-pool''"
       "index src < length (staff_of (assignments s) pid)"
    unfolding drop_on_def process_to_pool [OF that]
    by (simp add: return_fields staff_of_obj_set_same staff_of_obj_set_other)
  have 3: "availableStaff (onDragEnd (drop_on src dst) s) = availableStaff s
      \<and> assignments (onDragEnd (drop_on src dst) s) = assignments s"
    if "droppableId src = ''process-'' @ pid" "droppableId dst = ''process-'' @ qid"
    using process_to_process [OF that] by (simp add: drop_on_def)
  have 4: "\<exists>a'. onDragEnd_wa (drop_on src dst) a = Inr a'
         \<and> list_of_wa (droppableId src) a'
              = splice_remove (index src) (list_of_wa (droppableId src) a)
         \<and> list_of_wa (droppableId dst) a'
              = splice_insert (index dst) (list_of_wa (droppableId src) a ! index src)
                  (list_of_wa (droppableId dst) a)
         \<and> (index dst \<le> length (list_of_wa (droppableId dst) a) \<longrightarrow>
              list_of_wa (droppableId dst) a' ! index dst
                = list_of_wa (droppableId src) a ! index src)
         \<and> mset (availableStaff_wa a' @ assignedStaff_wa a')
              = mset (availableStaff_wa a @ assignedStaff_wa a)"
    if "(droppableId src = ''available'') \<noteq> (droppableId dst = ''available'')"
       "index src < length (list_of_wa (droppableId src) a)"
  proof -
    from wa_move [OF that] obtain a' where
      a: "onDragEnd_wa \<lparr>source = src, destination = Some dst\<rparr> a = Inr a'"
      and b: "list_of_wa (droppableId src) a' = splice_remove (index src) (list_of_wa (droppableId src) a)"
      and c: "list_of_wa (droppableId dst) a'
         = splice_insert (index dst) (list_of_wa (droppableId src) a ! index src)
             (list_of_wa (droppableId dst) a)"
      and d: "mset (availableStaff_wa a' @ assignedStaff_wa a')
         = mset (availableStaff_wa a @ assignedStaff_wa a)"
      by blast
    have e: "index dst \<le> length (list_of_wa (droppableId dst) a) \<longrightarrow>
              list_of_wa (droppableId dst) a' ! index dst
                = list_of_wa (droppableId src) a ! index src"
      unfolding c by (simp add: splice_insert_nth)
    from a b c d e show ?thesis unfolding drop_on_def by blast
  qed
  have 5: "mset (all_workers (onDragEnd (drop_on src dst) s)) = mset (all_workers s)"
    by (rule all_workers_onDragEnd)
  from 1 2 3 4 5 show ?thesis by blast
qed

theorem cross_location_move_witness:
  "(availableStaff (onDragEnd (drop_on (pool_loc 1) (process_loc ''n1'' 0))
        ((initial_state [node1])\<lparr>assignments := [(''n1'', [initialEmployees ! 5])]\<rparr>))
      = splice_remove 1 initialEmployees
    \<and> staff_of (assignments (onDragEnd (drop_on (pool_loc 1) (process_loc ''n1'' 0))
        ((initial_state [node1])\<lparr>assignments := [(''n1'', [initialEmployees ! 5])]\<rparr>))) ''n1''
      = [initialEmployees ! 5, initialEmployees ! 1])
   \<and> (staff_of (assignments (onDragEnd (drop_on (process_loc ''n1'' 0) (pool_loc 0))
        ((initial_state [node1])\<lparr>assignments := [(''n1'', [initialEmployees ! 5])]\<rparr>))) ''n1'' = []
    \<and> availableStaff (onDragEnd (drop_on (process_loc ''n1'' 0) (pool_loc 0))
        ((initial_state [node1])\<lparr>assignments := [(''n1'', [initialEmployees ! 5])]\<rparr>))
      = initialEmployees @ [initialEmployees ! 5])
   \<and> assignments (onDragEnd (drop_on (process_loc ''n1'' 0) (process_loc ''n2'' 0))
        ((initial_state [node1])\<lparr>assignments := [(''n1'', [initialEmployees ! 5])]\<rparr>))
      = [(''n1'', [initialEmployees ! 5])]
   \<and> (case onDragEnd_wa (drop_on (wa_loc ''available'' 2) (wa_loc ''assigned'' 0)) initial_alloc of
        Inl e \<Rightarrow> False
      | Inr a' \<Rightarrow> availableStaff_wa a' = splice_remove 2 initialEmployees
                  \<and> assignedStaff_wa a' = [initialEmployees ! 2])"
proof -
  let ?s = "(initial_state [node1])\<lparr>assignments := [(''n1'', [initialEmployees ! 5])]\<rparr>"
  have s: "availableStaff ?s = initialEmployees" "assignments ?s = [(''n1'', [initialEmployees ! 5])]"
    by (simp_all add: initial_state_def)
  have st: "staff_of [(''n1'', [initialEmployees ! 5])] ''n1'' = [initialEmployees ! 5]"
    by (simp add: staff_of_def obj_get_def)
  have len: "length initialEmployees = 6"
    by (simp add: initialEmployees_def)
  have 1: "availableStaff (onDragEnd (drop_on (pool_loc 1) (process_loc ''n1'' 0)) ?s)
      = splice_remove 1 initialEmployees
    \<and> staff_of (assignments (onDragEnd (drop_on (pool_loc 1) (process_loc ''n1'' 0)) ?s)) ''n1''
      = [initialEmployees ! 5, initialEmployees ! 1]"
    using cross_location_move [where src = "pool_loc 1" and dst = "process_loc ''n1'' 0"
        and pid = "''n1''" and s = ?s]
    by (simp add: pool_loc_def process_loc_def s st len)
  have 2: "staff_of (assignments (onDragEnd (drop_on (process_loc ''n1'' 0) (pool_loc 0)) ?s)) ''n1'' = []
    \<and> availableStaff (onDragEnd (drop_on (process_loc ''n1'' 0) (pool_loc 0)) ?s)
      = initialEmployees @ [initialEmployees ! 5]"
    using cross_location_move [where src = "process_loc ''n1'' 0" and dst = "pool_loc 0"
        and pid = "''n1''" and s = ?s]
    by (simp add: pool_loc_def process_loc_def s st splice_remove_def)
  have 3: "assignments (onDragEnd (drop_on (process_loc ''n1'' 0) (process_loc ''n2'' 0)) ?s)
      = [(''n1'', [initialEmployees ! 5])]"
    using cross_location_move [where src = "process_loc ''n1'' 0" and dst = "process_loc ''n2'' 0"
        and pid = "''n1''" and qid = "''n2''" and s = ?s]
    by (simp add: process_loc_def s)
  have 4: "case onDragEnd_wa (drop_on (wa_loc ''available'' 2) (wa_loc ''assigned'' 0)) initial_alloc of
        Inl e \<Rightarrow> False
      | Inr a' \<Rightarrow> availableStaff_wa a' = splice_remove 2 initialEmployees
                  \<and> assignedStaff_wa a' = [initialEmployees ! 2]"
    using cross_location_move [where src = "wa_loc ''available'' 2" and dst = "wa_loc ''assigned'' 0"
        and a = initial_alloc and s = ?s]
    by (auto simp: wa_loc_def list_of_wa_def initial_alloc_def len splice_insert_def)
  from 1 2 3 4 show ?thesis by blast
qed

subsection \<open>Moves within one location\<close>

text \<open>
  C5, as stated, asks that a same-location move reorders the sequence. On the page ledger
  a drop on the source's own droppable is ignored: moving pool index 0 to pool index 1
  leaves the pool in its old order, which is not the reordered one.
\<close>

theorem same_location_reorder_counterexample:
  "availableStaff (onDragEnd (drop_on (pool_loc 0) (pool_loc 1)) (initial_state [node1]))
     = initialEmployees
   \<and> splice_insert 1 (initialEmployees ! 0) (splice_remove 0 initialEmployees) \<noteq> initialEmployees"
  by (simp add: onDragEnd_def drop_on_def pool_loc_def initial_state_def Let_def
       splice_insert_def splice_remove_def initialEmployees_def)

text \<open>
  C5, as the code has it: for a move whose source and destination are the same location,
  the page ledger is left unchanged (only the drag flag is cleared), so no sequence changes
  length; on the two-list ledger of WorkforceAllocation, when the list holds a worker at
  the source index, that worker is removed and re-inserted at the destination index, the
  list keeps its length and the other list is unchanged.
\<close>

theorem same_location_move:
  "(droppableId src = droppableId dst \<longrightarrow>
      onDragEnd (drop_on src dst) s = s\<lparr>isDragging := False\<rparr>)
   \<and> (droppableId src = droppableId dst
      \<and> index src < length (list_of_wa (droppableId src) a) \<longrightarrow>
      (\<exists>a'. onDragEnd_wa (drop_on src dst) a = Inr a'
         \<and> list_of_wa (droppableId src) a'
              = splice_insert (index dst) (list_of_wa (droppableId src) a ! index src)
                  (splice_remove (index src) (list_of_wa (droppableId src) a))
         \<and> length (list_of_wa (droppableId src) a') = length (list_of_wa (droppableId src) a)
         \<and> (if droppableId src = ''available''
             then assignedStaff_wa a' = assignedStaff_wa a
             else availableStaff_wa a' = availableStaff_wa a)))"
  unfolding drop_on_def using same_droppable [of src dst s] wa_reorder [of src dst a] by blast

theorem same_location_move_witness:
  "onDragEnd (drop_on (pool_loc 0) (pool_loc 1)) (initial_state [node1])
     = (initial_state [node1])\<lparr>isDragging := False\<rparr>
   \<and> (case onDragEnd_wa (drop_on (wa_loc ''available'' 0) (wa_loc ''available'' 1)) initial_alloc of
        Inl e \<Rightarrow> False
      | Inr a' \<Rightarrow> availableStaff_wa a'
                    = splice_insert 1 (initialEmployees ! 0) (splice_remove 0 initialEmployees)
                  \<and> length (availableStaff_wa a') = 6
                  \<and> assignedStaff_wa a' = [])"
proof -
  have len: "length initialEmployees = 6"
    by (simp add: initialEmployees_def)
  have 1: "onDragEnd (drop_on (pool_loc 0) (pool_loc 1)) (initial_state [node1])
     = (initial_state [node1])\<lparr>isDragging := False\<rparr>"
    using same_location_move [where src = "pool_loc 0" and dst = "pool_loc 1"
        and s = "initial_state [node1]"]
    by (simp add: pool_loc_def)
  have 2: "case onDragEnd_wa (drop_on (wa_loc ''available'' 0) (wa_loc ''available'' 1)) initial_alloc of
        Inl e \<Rightarrow> False
      | Inr a' \<Rightarrow> availableStaff_wa a'
                    = splice_insert 1 (initialEmployees ! 0) (splice_remove 0 initialEmployees)
                  \<and> length (availableStaff_wa a') = 6
                  \<and> assignedStaff_wa a' = []"
    using same_location_move [where src = "wa_loc ''available'' 0" and dst = "wa_loc ''available'' 1"
        and a = initial_alloc and s = "initial_state [node1]"]
    by (auto simp: wa_loc_def list_of_wa_def initial_alloc_def len)
  from 1 2 show ?thesis by blast
qed

section \<open>Facts about the simulation pipeline\<close>

lemma foldl_add_sum: "foldl (\<lambda>s r. s + f r) a xs = a + sum_list (map f xs)" for a :: real
  by (induction xs arbitrary: a) simp_all

lemma responses_Nil: "responses remote i [] = []"
  by (simp add: responses_def)

lemma responses_Cons: "responses remote i (r # rs) = remote i r # responses remote (Suc i) rs"
  by (simp add: responses_def enumerate_simps)

lemma loop_None:
  assumes "remote i (req_of procs e) = None"
  shows "simulate_loop remote procs total' i (e # es) acc s
     = (s\<lparr>simProgress := (i + 1, total', process_label procs (fst e))\<rparr>, [req_of procs e], None)"
  using assms by (cases e) (simp add: req_of_def Let_def)

lemma loop_Some:
  assumes "remote i (req_of procs e) = Some res"
  shows "simulate_loop remote procs total' i (e # es) acc s
     = (let acc' = acc @ [result_of (process_label procs (fst e)) res];
            L = simulate_loop remote procs total' (i + 1) es acc'
                  (s\<lparr>simProgress := (i + 1, total', process_label procs (fst e)),
                     simResults := acc'\<rparr>)
        in (fst L, req_of procs e # fst (snd L), snd (snd L)))"
  using assms by (cases e) (simp add: req_of_def Let_def case_prod_beta)

lemma loop_calls:
  "fst (snd (simulate_loop remote procs total' i es acc s))
     = take (Suc (length (takeWhile (\<lambda>x. x \<noteq> None) (responses remote i (map (req_of procs) es)))))
         (map (req_of procs) es)"
proof (induction es arbitrary: i acc s)
  case Nil
  then show ?case by simp
next
  case (Cons e es)
  show ?case
  proof (cases "remote i (req_of procs e)")
    case None
    then show ?thesis by (simp add: loop_None responses_Cons)
  next
    case (Some res)
    then show ?thesis by (simp add: loop_Some responses_Cons Let_def Cons.IH)
  qed
qed

lemma loop_result:
  "snd (snd (simulate_loop remote procs total' i es acc s))
     = (if None \<in> set (responses remote i (map (req_of procs) es)) then None
        else Some (acc @ collected procs es (responses remote i (map (req_of procs) es))))"
proof (induction es arbitrary: i acc s)
  case Nil
  then show ?case by (simp add: responses_Nil collected_def)
next
  case (Cons e es)
  show ?case
  proof (cases "remote i (req_of procs e)")
    case None
    then show ?thesis by (simp add: loop_None responses_Cons)
  next
    case (Some res)
    then show ?thesis by (simp add: loop_Some responses_Cons Let_def Cons.IH collected_def)
  qed
qed

lemma loop_simResults:
  "simResults s = acc \<Longrightarrow>
   simResults (fst (simulate_loop remote procs total' i es acc s))
     = acc @ collected procs es (responses remote i (map (req_of procs) es))"
proof (induction es arbitrary: i acc s)
  case Nil
  then show ?case by (simp add: responses_Nil collected_def)
next
  case (Cons e es)
  show ?case
  proof (cases "remote i (req_of procs e)")
    case None
    then show ?thesis using Cons.prems by (simp add: loop_None responses_Cons collected_def)
  next
    case (Some res)
    then show ?thesis by (simp add: loop_Some responses_Cons Let_def Cons.IH collected_def)
  qed
qed

lemma loop_progress:
  "es \<noteq> [] \<Longrightarrow>
   simProgress (fst (simulate_loop remote procs total' i es acc s))
     = (i + length (fst (snd (simulate_loop remote procs total' i es acc s))), total',
        process_label procs (fst (es ! (length (fst (snd (simulate_loop remote procs total' i es acc s))) - 1))))"
proof (induction es arbitrary: i acc s)
  case Nil
  then show ?case by simp
next
  case (Cons e es)
  show ?case
  proof (cases "remote i (req_of procs e)")
    case None
    then show ?thesis by (simp add: loop_None)
  next
    case (Some res)
    show ?thesis
    proof (cases "es = []")
      case True
      then show ?thesis using Some by (simp add: loop_Some Let_def)
    next
      case False
      have pos: "fst (snd (simulate_loop remote procs total' (Suc i) es acc' s')) \<noteq> []" for acc' s'
        using False by (cases es) (simp_all add: loop_calls)
      show ?thesis using Some False pos
        by (simp add: loop_Some Let_def Cons.IH [OF False] nth_Cons')
    qed
  qed
qed


lemma assigned_empty_iff: "assignedProcesses s = [] \<longleftrightarrow> (\<forall>e\<in>set (assignments s). snd e = [])"
  by (auto simp: assignedProcesses_def filter_empty_conv)

lemma length_requests: "length (requests s) = length (assignedProcesses s)"
  by (simp add: requests_def)

lemma run_guard:
  "assignedProcesses s = [] \<Longrightarrow>
   runFullSimulation remote s
     = \<lparr>final = s\<lparr>toasts := toasts s @ [(''No employees assigned yet'', Error, Some 3000)]\<rparr>,
        calls = [], phases = []\<rparr>"
  by (simp add: runFullSimulation_def showToast_def)

lemma run_unfold:
  "assignedProcesses s \<noteq> [] \<Longrightarrow>
   runFullSimulation remote s =
     (case snd (snd (the_loop remote s)) of
        None \<Rightarrow> \<lparr>final = (showToast (''Simulation failed'', Error, None) (fst (the_loop remote s)))
                           \<lparr>showSimModal := False, simPhase := Idle\<rparr>,
                calls = fst (snd (the_loop remote s)), phases = [Simulating, Idle]\<rparr>
      | Some allResults \<Rightarrow>
          (case aggregate allResults of
             None \<Rightarrow>
               \<lparr>final = (showToast (''Simulation failed'', Error, None)
                           ((fst (the_loop remote s))\<lparr>simPhase := Analyzing\<rparr>))
                           \<lparr>showSimModal := False, simPhase := Idle\<rparr>,
                calls = fst (snd (the_loop remote s)), phases = [Simulating, Analyzing, Idle]\<rparr>
           | Some agg \<Rightarrow>
               \<lparr>final = (fst (the_loop remote s))\<lparr>simPhase := Analyzing\<rparr>
                           \<lparr>simAggregate := Some agg\<rparr>
                           \<lparr>simPhase := Complete\<rparr>,
                calls = fst (snd (the_loop remote s)),
                phases = [Simulating, Analyzing, Complete]\<rparr>))"
  by (simp add: runFullSimulation_def the_loop_def start_state_def Let_def case_prod_beta
        split: option.splits prod.splits)

lemma the_loop_result:
  "snd (snd (the_loop remote s))
     = (if None \<in> set (responses remote 0 (requests s)) then None
        else Some (collected (processes s) (assignedProcesses s) (responses remote 0 (requests s))))"
  by (simp add: the_loop_def loop_result requests_def)

lemma the_loop_calls:
  "fst (snd (the_loop remote s)) = take (Suc (succeeded remote s)) (requests s)"
  by (simp add: the_loop_def loop_calls requests_def succeeded_def)

lemma the_loop_simResults:
  "simResults (fst (the_loop remote s))
     = collected (processes s) (assignedProcesses s) (responses remote 0 (requests s))"
  using loop_simResults [of "start_state s" "[]" remote "processes s"
      "length (assignedProcesses s)" 0 "assignedProcesses s"]
  by (simp add: the_loop_def requests_def start_state_def)

lemma length_responses: "length (responses remote i reqs) = length reqs"
  by (simp add: responses_def)


lemma collected_all:
  "length rs = length es \<Longrightarrow> None \<notin> set rs \<Longrightarrow>
   map sim (collected procs es rs) = map (\<lambda>r. simulation (the r)) rs"
proof (induction es arbitrary: rs)
  case Nil
  then show ?case by (simp add: collected_def)
next
  case (Cons e es)
  then obtain r rs' where rs: "rs = r # rs'" by (cases rs) auto
  with Cons have r: "None \<noteq> r" and n: "None \<notin> set rs'" and l: "length rs' = length es"
    by auto
  from r obtain v where v: "r = Some v" by (cases r) auto
  show ?case using Cons.IH [OF l n] by (simp add: rs v collected_def result_of_def)
qed

lemma takeWhile_all: "None \<notin> set rs \<Longrightarrow> length (takeWhile (\<lambda>x. x \<noteq> None) rs) = length rs"
proof (induction rs)
  case Nil
  then show ?case by simp
next
  case (Cons a rs)
  then show ?case by (cases a) auto
qed


lemma run_failed:
  assumes "None \<in> set (responses remote 0 (requests s))"
  shows "runFullSimulation remote s
     = \<lparr>final = (showToast (''Simulation failed'', Error, None) (fst (the_loop remote s)))
                           \<lparr>showSimModal := False, simPhase := Idle\<rparr>,
                calls = take (Suc (succeeded remote s)) (requests s),
                phases = [Simulating, Idle]\<rparr>"
proof -
  from assms have "requests s \<noteq> []" by (auto simp: responses_def)
  then have ne: "assignedProcesses s \<noteq> []" by (simp add: requests_def)
  show ?thesis
    using assms by (simp add: run_unfold [OF ne] the_loop_result the_loop_calls)
qed

lemma reduce_field_Some:
  "None \<notin> set (map sim rs) \<Longrightarrow>
   reduce_field f a rs = Some (a + sum_list (map (\<lambda>r. f (the (sim r))) rs))"
proof (induction rs arbitrary: a)
  case Nil
  then show ?case by simp
next
  case (Cons r rs)
  then obtain x where x: "sim r = Some x" by (cases "sim r") auto
  from Cons.prems have "None \<notin> set (map sim rs)" by simp
  from Cons.IH [OF this] show ?case by (simp add: x)
qed

lemma reduce_field_None: "None \<in> set (map sim rs) \<Longrightarrow> reduce_field f a rs = None"
proof (induction rs arbitrary: a)
  case Nil
  then show ?case by simp
next
  case (Cons r rs)
  show ?case
  proof (cases "sim r")
    case None
    then show ?thesis by simp
  next
    case (Some x)
    with Cons.prems have "None \<in> set (map sim rs)" by auto
    from Cons.IH [OF this] show ?thesis by (simp add: Some)
  qed
qed

lemma some_bottleneck_Some:
  "None \<notin> set (map sim rs) \<Longrightarrow>
   some_bottleneck rs = Some (\<exists>r\<in>set rs. is_bottleneck (the (sim r)))"
proof (induction rs)
  case Nil
  then show ?case by simp
next
  case (Cons r rs)
  then obtain x where x: "sim r = Some x" by (cases "sim r") auto
  from Cons.prems have "None \<notin> set (map sim rs)" by simp
  from Cons.IH [OF this] show ?case by (simp add: x)
qed

lemma aggregate_None: "None \<in> set (map sim rs) \<Longrightarrow> aggregate rs = None"
  by (simp add: aggregate_def reduce_field_None)

lemma aggregate_Some:
  assumes "None \<notin> set (map sim rs)"
  shows "aggregate rs =
     Some \<lparr>cycle_time_before = mean (map (\<lambda>r. cycle_time_before (the (sim r))) rs),
           cycle_time_after = mean (map (\<lambda>r. cycle_time_after (the (sim r))) rs),
           cycle_reduction_pct = mean (map (\<lambda>r. cycle_reduction_pct (the (sim r))) rs),
           throughput_gain_pct = mean (map (\<lambda>r. throughput_gain_pct (the (sim r))) rs),
           opex_increase = sum_list (map (\<lambda>r. opex_increase (the (sim r))) rs),
           is_bottleneck = (\<exists>r\<in>set rs. is_bottleneck (the (sim r))),
           impact_score = mean (map (\<lambda>r. impact_score (the (sim r))) rs)\<rparr>"
  by (simp add: aggregate_def reduce_field_Some [OF assms] some_bottleneck_Some [OF assms]
        mean_def)


lemma succeeded_all:
  assumes "None \<notin> set (responses remote 0 (requests s))"
  shows "succeeded remote s = length (requests s)"
  unfolding succeeded_def using takeWhile_all [OF assms] by (simp only: length_responses)

lemma run_error_body:
  assumes "assignedProcesses s \<noteq> []" and "None \<notin> set (responses remote 0 (requests s))"
    and "None \<in> set (map sim (simResults (fst (the_loop remote s))))"
  shows "runFullSimulation remote s
     = \<lparr>final = (showToast (''Simulation failed'', Error, None)
                   ((fst (the_loop remote s))\<lparr>simPhase := Analyzing\<rparr>))
                   \<lparr>showSimModal := False, simPhase := Idle\<rparr>,
        calls = requests s,
        phases = [Simulating, Analyzing, Idle]\<rparr>"
  using assms(2) aggregate_None [OF assms(3)] succeeded_all [OF assms(2)]
  by (simp add: run_unfold [OF assms(1)] the_loop_result the_loop_calls the_loop_simResults)

lemma run_completed:
  assumes "assignedProcesses s \<noteq> []" and "None \<notin> set (responses remote 0 (requests s))"
    and "None \<notin> set (map sim (simResults (fst (the_loop remote s))))"
  shows "runFullSimulation remote s
     = \<lparr>final = (fst (the_loop remote s))\<lparr>simPhase := Analyzing\<rparr>
                     \<lparr>simAggregate := aggregate (simResults (fst (the_loop remote s)))\<rparr>
                     \<lparr>simPhase := Complete\<rparr>,
        calls = requests s,
        phases = [Simulating, Analyzing, Complete]\<rparr>"
  using assms(2) aggregate_Some [OF assms(3)] succeeded_all [OF assms(2)]
  by (simp add: run_unfold [OF assms(1)] the_loop_result the_loop_calls the_loop_simResults)

lemma analyzing_iff:
  "Analyzing \<in> set (phases (runFullSimulation remote s))
     \<longleftrightarrow> assignedProcesses s \<noteq> [] \<and> None \<notin> set (responses remote 0 (requests s))"
proof (cases "assignedProcesses s = []")
  case True
  then show ?thesis by (simp add: run_guard)
next
  case False
  show ?thesis
  proof (cases "None \<in> set (responses remote 0 (requests s))")
    case True
    then show ?thesis by (simp add: run_failed)
  next
    case no: False
    show ?thesis
    proof (cases "None \<in> set (map sim (simResults (fst (the_loop remote s))))")
      case True
      then show ?thesis using False no by (simp add: run_error_body)
    next
      case ok: False
      then show ?thesis using False no by (simp add: run_completed)
    qed
  qed
qed


lemma the_loop_total:
  "assignedProcesses s \<noteq> [] \<Longrightarrow>
   fst (snd (simProgress (fst (the_loop remote s)))) = length (assignedProcesses s)
   \<and> fst (simProgress (fst (the_loop remote s))) = length (fst (snd (the_loop remote s)))"
  using loop_progress [of "assignedProcesses s" remote "processes s" "length (assignedProcesses s)" 0
      "[]" "start_state s"]
  by (simp add: the_loop_def)

lemma assignedProcesses_filter:
  "assignedProcesses s = filter (\<lambda>e. snd e \<noteq> []) (assignments s)"
  unfolding assignedProcesses_def by (rule filter_cong) auto

lemma three_assigned_ledger:
  "processes three_assigned = [node1, node2, node3]"
  "assignments three_assigned
     = [(''n1'', [initialEmployees ! 0]), (''n2'', [initialEmployees ! 1]),
        (''n3'', [initialEmployees ! 2])]"
  "toasts three_assigned
     = [(''Assigned Alice Chen to Create Order'', Success, Some 3000),
        (''Assigned Bob Smith to Approve Order'', Success, Some 3000),
        (''Assigned Charlie D to Clear Invoice'', Success, Some 3000)]"
  by (simp_all add: three_assigned_def run_ledger_def initial_state_def obj_eval node1_def node2_def node3_def
      drop_on_def pool_loc_def process_loc_def onDragEnd_def Let_def js_index_def startsWith_def
      assign_to_process_def showToast_def splice_remove_def staff_of_def obj_get_def
      initialEmployees_def label_or_def)

lemma one_assigned_ledger:
  "processes one_assigned = [node1, node2]"
  "assignments one_assigned = [(''n1'', [initialEmployees ! 0]), (''n2'', [])]"
  by (simp_all add: one_assigned_def run_ledger_def initial_state_def obj_eval node1_def node2_def
      drop_on_def pool_loc_def process_loc_def onDragEnd_def Let_def js_index_def startsWith_def
      assign_to_process_def showToast_def splice_remove_def staff_of_def obj_get_def
      initialEmployees_def label_or_def)

lemma three_requests:
  "requests three_assigned
     = [(''n1'', ''Create Order'', [initialEmployees ! 0]),
        (''n2'', ''Approve Order'', [initialEmployees ! 1]),
        (''n3'', ''Clear Invoice'', [initialEmployees ! 2])]"
  by (simp add: requests_def assignedProcesses_def three_assigned_ledger req_of_def
      process_label_def label_or_def node1_def node2_def node3_def)

lemma one_request:
  "requests one_assigned = [(''n1'', ''Create Order'', [initialEmployees ! 0])]"
  by (simp add: requests_def assignedProcesses_def one_assigned_ledger req_of_def
      process_label_def label_or_def node1_def node2_def)

lemma three_responses_ok:
  "responses remote_ok 0 (requests three_assigned)
     = [Some (example_suggestion 10 False), Some (example_suggestion 20 True),
        Some (example_suggestion 30 False)]"
  by (simp add: three_requests responses_Cons responses_Nil remote_ok_def)

lemma three_responses_fail:
  "responses remote_fail_second 0 (requests three_assigned)
     = [Some (example_suggestion 10 False), None, Some (example_suggestion 10 False)]"
  by (simp add: three_requests responses_Cons responses_Nil remote_fail_second_def)

lemma three_responses_error:
  "responses remote_error_second 0 (requests three_assigned)
     = [Some (example_suggestion 10 False), Some error_body, Some (example_suggestion 10 False)]"
  by (simp add: three_requests responses_Cons responses_Nil remote_error_second_def)

lemma three_assignedProcesses:
  "assignedProcesses three_assigned
     = [(''n1'', [initialEmployees ! 0]), (''n2'', [initialEmployees ! 1]),
        (''n3'', [initialEmployees ! 2])]"
  by (simp add: assignedProcesses_def three_assigned_ledger)

lemma three_labels:
  "process_label [node1, node2, node3] ''n1'' = ''Create Order''"
  "process_label [node1, node2, node3] ''n2'' = ''Approve Order''"
  "process_label [node1, node2, node3] ''n3'' = ''Clear Invoice''"
  by (simp_all add: process_label_def label_or_def node1_def node2_def node3_def)


lemma run_simResults:
  assumes "assignedProcesses s \<noteq> []"
  shows "simResults (final (runFullSimulation remote s))
     = collected (processes s) (assignedProcesses s) (responses remote 0 (requests s))"
proof (cases "None \<in> set (responses remote 0 (requests s))")
  case True
  then show ?thesis by (simp add: run_failed showToast_def the_loop_simResults)
next
  case no: False
  show ?thesis
  proof (cases "None \<in> set (map sim (simResults (fst (the_loop remote s))))")
    case True
    then show ?thesis
      by (simp add: run_error_body [OF assms no] showToast_def the_loop_simResults)
  next
    case False
    then show ?thesis
      by (simp add: run_completed [OF assms no] the_loop_simResults)
  qed
qed

lemma three_collected_ok:
  "collected (processes three_assigned) (assignedProcesses three_assigned)
     (responses remote_ok 0 (requests three_assigned))
     = [result_of ''Create Order'' (example_suggestion 10 False),
        result_of ''Approve Order'' (example_suggestion 20 True),
        result_of ''Clear Invoice'' (example_suggestion 30 False)]"
  by (simp add: collected_def three_responses_ok three_assignedProcesses
        three_assigned_ledger three_labels)

subsection \<open>The aggregate\<close>

text \<open>
  C1: a run that reaches the Analyzing phase with N collected simulation results (every
  collected entry carries a simulation) has N at least 1 and equal to the number of
  non-empty locations, one result per answer of the remote; it completes, and its
  aggregate has \<open>cycle_time_before\<close>, \<open>cycle_time_after\<close>, \<open>cycle_reduction_pct\<close>,
  \<open>throughput_gain_pct\<close> and \<open>impact_score\<close> equal to the arithmetic mean of that field
  over the N results, \<open>opex_increase\<close> equal to their sum, and \<open>is_bottleneck\<close> true
  exactly when one of the N results has it true. (Numbers are reals here.)
\<close>

theorem aggregate_result:
  assumes "Analyzing \<in> set (phases (runFullSimulation remote s))"
    and "None \<notin> set (map sim (simResults (final (runFullSimulation remote s))))"
  shows "let out = runFullSimulation remote s; rs = simResults (final out) in
     1 \<le> length rs
     \<and> length rs = length (filter (\<lambda>e. snd e \<noteq> []) (assignments s))
     \<and> map sim rs = map (\<lambda>r. simulation (the r)) (responses remote 0 (requests s))
     \<and> phases out = [Simulating, Analyzing, Complete]
     \<and> (\<exists>agg. simAggregate (final out) = Some agg
          \<and> cycle_time_before agg = mean (map (\<lambda>r. cycle_time_before (the (sim r))) rs)
          \<and> cycle_time_after agg = mean (map (\<lambda>r. cycle_time_after (the (sim r))) rs)
          \<and> cycle_reduction_pct agg = mean (map (\<lambda>r. cycle_reduction_pct (the (sim r))) rs)
          \<and> throughput_gain_pct agg = mean (map (\<lambda>r. throughput_gain_pct (the (sim r))) rs)
          \<and> impact_score agg = mean (map (\<lambda>r. impact_score (the (sim r))) rs)
          \<and> opex_increase agg = sum_list (map (\<lambda>r. opex_increase (the (sim r))) rs)
          \<and> is_bottleneck agg = (\<exists>r\<in>set rs. is_bottleneck (the (sim r))))"
proof -
  from assms(1) have ne: "assignedProcesses s \<noteq> []"
    and ok: "None \<notin> set (responses remote 0 (requests s))"
    by (simp_all add: analyzing_iff)
  let ?rs = "simResults (fst (the_loop remote s))"
  have len: "length (responses remote 0 (requests s)) = length (assignedProcesses s)"
    by (simp add: length_responses length_requests)
  have fin: "simResults (final (runFullSimulation remote s)) = ?rs"
    by (simp add: run_simResults [OF ne] the_loop_simResults)
  from assms(2) have good: "None \<notin> set (map sim ?rs)"
    unfolding fin .
  have agg: "simAggregate (final (runFullSimulation remote s)) = aggregate ?rs"
    and ph: "phases (runFullSimulation remote s) = [Simulating, Analyzing, Complete]"
    by (simp_all add: run_completed [OF ne ok good])
  have m: "map sim ?rs = map (\<lambda>r. simulation (the r)) (responses remote 0 (requests s))"
    unfolding the_loop_simResults by (rule collected_all [OF len ok])
  then have "length ?rs = length (responses remote 0 (requests s))"
    by (metis length_map)
  then have l: "length ?rs = length (assignedProcesses s)"
    using len by simp
  then have l1: "1 \<le> length ?rs"
    using ne by (cases "assignedProcesses s") simp_all
  show ?thesis
    unfolding Let_def fin agg ph aggregate_Some [OF good]
    using l l1 m by (simp add: assignedProcesses_filter)
qed

theorem aggregate_result_witness:
  "Analyzing \<in> set (phases (runFullSimulation remote_ok three_assigned))
   \<and> map (\<lambda>r. cycle_reduction_pct (the (sim r)))
        (simResults (final (runFullSimulation remote_ok three_assigned))) = [10, 20, 30]
   \<and> map (\<lambda>r. is_bottleneck (the (sim r)))
        (simResults (final (runFullSimulation remote_ok three_assigned))) = [False, True, False]
   \<and> map (\<lambda>r. opex_increase (the (sim r)))
        (simResults (final (runFullSimulation remote_ok three_assigned))) = [2, 2, 2]
   \<and> (case simAggregate (final (runFullSimulation remote_ok three_assigned)) of
         None \<Rightarrow> False
       | Some agg \<Rightarrow> cycle_reduction_pct agg = 20 \<and> is_bottleneck agg \<and> opex_increase agg = 6
                     \<and> cycle_time_before agg = 10)"
proof -
  let ?out = "runFullSimulation remote_ok three_assigned"
  have ne: "assignedProcesses three_assigned \<noteq> []"
    by (simp add: three_assignedProcesses)
  have h: "Analyzing \<in> set (phases ?out)"
    using ne by (simp add: analyzing_iff three_responses_ok)
  have rs: "simResults (final ?out)
      = [result_of ''Create Order'' (example_suggestion 10 False),
         result_of ''Approve Order'' (example_suggestion 20 True),
         result_of ''Clear Invoice'' (example_suggestion 30 False)]"
    by (simp add: run_simResults [OF ne] three_collected_ok)
  have g: "None \<notin> set (map sim (simResults (final ?out)))"
    unfolding rs by (simp add: result_of_def example_suggestion_def)
  have v1: "map (\<lambda>r. cycle_reduction_pct (the (sim r))) (simResults (final ?out)) = [10, 20, 30]"
    unfolding rs by (simp add: result_of_def example_suggestion_def)
  have v2: "map (\<lambda>r. is_bottleneck (the (sim r))) (simResults (final ?out)) = [False, True, False]"
    unfolding rs by (simp add: result_of_def example_suggestion_def)
  have v3: "map (\<lambda>r. opex_increase (the (sim r))) (simResults (final ?out)) = [2, 2, 2]"
    unfolding rs by (simp add: result_of_def example_suggestion_def)
  have v4: "map (\<lambda>r. cycle_time_before (the (sim r))) (simResults (final ?out)) = [10, 10, 10]"
    unfolding rs by (simp add: result_of_def example_suggestion_def)
  have e: "(\<exists>r\<in>set (simResults (final ?out)). is_bottleneck (the (sim r)))
             = (True \<in> set (map (\<lambda>r. is_bottleneck (the (sim r))) (simResults (final ?out))))"
    by auto
  from aggregate_result [OF h g] obtain agg where
    a: "simAggregate (final ?out) = Some agg"
    and c: "cycle_reduction_pct agg
              = mean (map (\<lambda>r. cycle_reduction_pct (the (sim r))) (simResults (final ?out)))"
    and b: "is_bottleneck agg
              = (\<exists>r\<in>set (simResults (final ?out)). is_bottleneck (the (sim r)))"
    and x: "opex_increase agg
              = sum_list (map (\<lambda>r. opex_increase (the (sim r))) (simResults (final ?out)))"
    and t: "cycle_time_before agg
              = mean (map (\<lambda>r. cycle_time_before (the (sim r))) (simResults (final ?out)))"
    unfolding Let_def by blast
  have "cycle_reduction_pct agg = 20" unfolding c v1 by (simp add: mean_def)
  moreover have "is_bottleneck agg" unfolding b e v2 by simp
  moreover have "opex_increase agg = 6" unfolding x v3 by simp
  moreover have "cycle_time_before agg = 10" unfolding t v4 by (simp add: mean_def)
  ultimately show ?thesis using h v1 v2 v3 a by simp
qed

subsection \<open>A failing step\<close>




subsection \<open>The entry guard\<close>

text \<open>
  C6, as stated, asks for an informational notification. The guard reports through the
  notify sink with the level \<open>Error\<close>, which is not the level \<open>Info\<close>.
\<close>

theorem guard_toast_level_counterexample:
  "toasts (final (runFullSimulation remote_ok (initial_state [node1])))
     = [(''No employees assigned yet'', Error, Some 3000)]
   \<and> Error \<noteq> Info"
  by (simp add: runFullSimulation_def assignedProcesses_def initial_state_def obj_eval showToast_def)

text \<open>
  C6, as the code has it: when every location's assigned sequence is empty the run is
  rejected at the entry guard: the notification \<open>No employees assigned yet\<close> is emitted
  with level \<open>Error\<close> for 3000 ms, nothing else of the state changes (phase, modal,
  results and aggregate are as before), \<^verbatim>\<open>setSimPhase\<close> is never called and no remote
  call is made.
\<close>

theorem empty_selection_rejected:
  assumes "\<forall>e\<in>set (assignments s). snd e = []"
  shows "let out = runFullSimulation remote s in
     final out = s\<lparr>toasts := toasts s @ [(''No employees assigned yet'', Error, Some 3000)]\<rparr>
     \<and> calls out = []
     \<and> phases out = []
     \<and> simPhase (final out) = simPhase s
     \<and> showSimModal (final out) = showSimModal s
     \<and> simResults (final out) = simResults s
     \<and> simAggregate (final out) = simAggregate s"
proof -
  from assms have "assignedProcesses s = []" by (simp add: assigned_empty_iff)
  then show ?thesis by (simp add: run_guard Let_def)
qed

theorem empty_selection_rejected_witness:
  "final (runFullSimulation remote_ok (initial_state [node1, node2]))
     = (initial_state [node1, node2])\<lparr>toasts := [(''No employees assigned yet'', Error, Some 3000)]\<rparr>
   \<and> calls (runFullSimulation remote_ok (initial_state [node1, node2])) = []
   \<and> phases (runFullSimulation remote_ok (initial_state [node1, node2])) = []
   \<and> simPhase (final (runFullSimulation remote_ok (initial_state [node1, node2]))) = Idle"
proof -
  have a: "assignments (initial_state [node1, node2]) = [(''n1'', []), (''n2'', [])]"
    by (simp add: initial_state_def obj_eval node1_def node2_def)
  have h: "\<forall>e\<in>set (assignments (initial_state [node1, node2])). snd e = []"
    unfolding a by simp
  have t: "toasts (initial_state [node1, node2]) = []"
    and p: "simPhase (initial_state [node1, node2]) = Idle"
    by (simp_all add: initial_state_def)
  show ?thesis
    using empty_selection_rejected [OF h, of remote_ok] by (simp add: Let_def t p)
qed

subsection \<open>One call per non-empty location\<close>

text \<open>
  C7, as stated, asks for one call per non-empty location in every run. With three
  non-empty locations and a remote whose second call throws, the run makes the first two
  calls only: the third location is never evaluated.
\<close>

theorem calls_stop_at_failure_counterexample:
  "map fst (filter (\<lambda>e. snd e \<noteq> []) (assignments three_assigned)) = [''n1'', ''n2'', ''n3'']
   \<and> map fst (calls (runFullSimulation remote_fail_second three_assigned)) = [''n1'', ''n2'']"
proof -
  have n: "None \<in> set (responses remote_fail_second 0 (requests three_assigned))"
    by (simp add: three_responses_fail)
  have k: "succeeded remote_fail_second three_assigned = 1"
    by (simp add: succeeded_def three_responses_fail)
  show ?thesis
    by (simp add: run_failed [OF n] k three_requests three_assigned_ledger)
qed

text \<open>
  C7, as the code has it: when at least one location is non-empty, the requests of the run
  are those of the non-empty locations, one each, in ledger order and with the staff of
  that location; the calls made are these requests in order, one after the other, up to
  and including the first call that throws (the fetch is rejected, the body is no JSON or
  is \<^verbatim>\<open>null\<close>). A call that resolves, even with the body of an HTTP error, does not
  stop the loop: when no call throws, all the calls are made, exactly one per non-empty
  location. The reported total is the number of non-empty locations.
\<close>

theorem one_call_per_location:
  assumes "filter (\<lambda>e. snd e \<noteq> []) (assignments s) \<noteq> []"
  shows "let out = runFullSimulation remote s in
     calls out = take (Suc (succeeded remote s)) (requests s)
     \<and> (None \<notin> set (responses remote 0 (requests s)) \<longrightarrow> calls out = requests s)
     \<and> map fst (requests s) = map fst (filter (\<lambda>e. snd e \<noteq> []) (assignments s))
     \<and> map (\<lambda>r. snd (snd r)) (requests s) = map snd (filter (\<lambda>e. snd e \<noteq> []) (assignments s))
     \<and> fst (snd (simProgress (final out)))
         = length (filter (\<lambda>e. snd e \<noteq> []) (assignments s))"
proof -
  from assms have ne: "assignedProcesses s \<noteq> []" by (simp add: assignedProcesses_filter)
  have r1: "map fst (requests s) = map fst (filter (\<lambda>e. snd e \<noteq> []) (assignments s))"
    by (simp add: requests_def req_of_def assignedProcesses_filter)
  have r2: "map (\<lambda>r. snd (snd r)) (requests s) = map snd (filter (\<lambda>e. snd e \<noteq> []) (assignments s))"
    by (simp add: requests_def req_of_def assignedProcesses_filter comp_def)
  have tot: "fst (snd (simProgress (fst (the_loop remote s))))
               = length (filter (\<lambda>e. snd e \<noteq> []) (assignments s))"
    using the_loop_total [OF ne] by (simp add: assignedProcesses_filter)
  show ?thesis
  proof (cases "None \<in> set (responses remote 0 (requests s))")
    case True
    then show ?thesis
      using r1 r2 tot by (simp add: Let_def run_failed showToast_def)
  next
    case False
    have t: "take (Suc (succeeded remote s)) (requests s) = requests s"
      by (simp add: succeeded_all [OF False])
    show ?thesis
    proof (cases "None \<in> set (map sim (simResults (fst (the_loop remote s))))")
      case True
      then show ?thesis
        using False r1 r2 tot t
        by (simp add: Let_def run_error_body [OF ne False True] showToast_def)
    next
      case ok: False
      then show ?thesis
        using False r1 r2 tot t by (simp add: Let_def run_completed [OF ne False ok])
    qed
  qed
qed

theorem one_call_per_location_witness:
  "assignments one_assigned = [(''n1'', [initialEmployees ! 0]), (''n2'', [])]
   \<and> calls (runFullSimulation remote_ok one_assigned)
       = [(''n1'', ''Create Order'', [initialEmployees ! 0])]
   \<and> fst (snd (simProgress (final (runFullSimulation remote_ok one_assigned)))) = 1
   \<and> map fst (calls (runFullSimulation remote_error_second three_assigned))
       = [''n1'', ''n2'', ''n3'']"
proof -
  have h: "filter (\<lambda>e. snd e \<noteq> []) (assignments one_assigned) \<noteq> []"
    by (simp add: one_assigned_ledger)
  have ok: "None \<notin> set (responses remote_ok 0 (requests one_assigned))"
    by (simp add: one_request responses_Cons responses_Nil remote_ok_def)
  have 1: "calls (runFullSimulation remote_ok one_assigned)
       = [(''n1'', ''Create Order'', [initialEmployees ! 0])]
     \<and> fst (snd (simProgress (final (runFullSimulation remote_ok one_assigned)))) = 1"
    using one_call_per_location [OF h, of remote_ok] ok
    by (simp add: Let_def one_assigned_ledger one_request)
  have h3: "filter (\<lambda>e. snd e \<noteq> []) (assignments three_assigned) \<noteq> []"
    by (simp add: three_assigned_ledger)
  have m: "None \<notin> set (responses remote_error_second 0 (requests three_assigned))"
    by (simp add: three_responses_error)
  from one_call_per_location [OF h3, of remote_error_second] m
  have "calls (runFullSimulation remote_error_second three_assigned) = requests three_assigned"
    unfolding Let_def by blast
  then have 2: "map fst (calls (runFullSimulation remote_error_second three_assigned))
       = [''n1'', ''n2'', ''n3'']"
    by (simp add: three_requests)
  from 1 2 show ?thesis by (simp add: one_assigned_ledger)
qed

section \<open>Facts about the chat transport\<close>

lemma ws_open_fields:
  "ws_open (s\<lparr>messages := m\<rparr>) = ws_open s"
  "ws_open (s\<lparr>inputValue := v\<rparr>) = ws_open s"
  "ws_open (s\<lparr>isLoading := l\<rparr>) = ws_open s"
  by (simp_all add: ws_open_def split: option.splits)

lemma send_guarded:
  "js_trim (inputValue s) = [] \<or> isLoading s \<Longrightarrow> handleSendMessage now s = s"
  by (simp add: handleSendMessage_def)

lemma send_open:
  assumes "js_trim (inputValue s) \<noteq> []" and "\<not> isLoading s" and "ws s = Some i"
    and "js_index (sockets s) i = Some OPEN"
  shows "handleSendMessage now s
     = s\<lparr>messages := messages s @ [\<lparr>msg_id = now 0, msg_text = inputValue s, sender = User,
                                       timestamp = now 1\<rparr>],
          inputValue := [], isLoading := True,
          sent := sent s @ [(i, inputValue s)]\<rparr>"
  using assms by (simp add: handleSendMessage_def Let_def ws_open_def)

lemma send_not_open:
  assumes "js_trim (inputValue s) \<noteq> []" and "\<not> isLoading s" and "\<not> ws_open s"
  shows "handleSendMessage now s
     = s\<lparr>messages := messages s @
             [\<lparr>msg_id = now 0, msg_text = inputValue s, sender = User, timestamp = now 1\<rparr>,
              \<lparr>msg_id = now 2 + 1, msg_text = warning_text, sender = Bot, timestamp = now 3\<rparr>],
          inputValue := [], isLoading := False,
          connectionStatus := Connecting,
          sockets := sockets s @ [CONNECTING],
          ws := Some (length (sockets s))\<rparr>"
  using assms by (simp add: handleSendMessage_def Let_def ws_open_fields connectWebSocket_def)

lemma stale_status_state:
  "run_chat 0 [Mount, ReconnectTimer, SocketOpen 1, SocketClose 0, SetInput (ascii ''hi'')]
     = \<lparr>messages = [INTRO_MESSAGE 0], inputValue = ascii ''hi'', isLoading = False,
        connectionStatus = Disconnected, sockets = [CLOSED, OPEN], ws = Some 1, sent = []\<rparr>"
  by (simp add: run_chat_def initial_chat_def connectWebSocket_def ws_open_def js_index_def)

lemma trim_hi: "js_trim (ascii ''hi'') \<noteq> []"
  by (simp add: js_trim_def ascii_def js_whitespace_def)

subsection \<open>Sending while the channel is not open\<close>

text \<open>
  C8, as stated, makes the behaviour depend on the transport state not being Connected.
  The handler tests the \<^verbatim>\<open>readyState\<close> of the current socket instead, and the status
  can lag behind it: after the one-second timer has replaced a socket that was still
  connecting, the new socket opens and the old one then closes, the status is
  Disconnected while the current socket is open. A send in that state appends one
  message only and transmits the text.
\<close>

theorem send_with_stale_status_counterexample:
  "connectionStatus
     (run_chat 0 [Mount, ReconnectTimer, SocketOpen 1, SocketClose 0, SetInput (ascii ''hi'')])
     \<noteq> Connected
   \<and> messages
       (run_chat 0 [Mount, ReconnectTimer, SocketOpen 1, SocketClose 0, SetInput (ascii ''hi''),
                    Send (fixed_clock 5)])
     = [INTRO_MESSAGE 0,
        \<lparr>msg_id = 5, msg_text = ascii ''hi'', sender = User, timestamp = 5\<rparr>]
   \<and> sent
       (run_chat 0 [Mount, ReconnectTimer, SocketOpen 1, SocketClose 0, SetInput (ascii ''hi''),
                    Send (fixed_clock 5)])
     = [(1, ascii ''hi'')]"
proof -
  have a: "run_chat 0 [Mount, ReconnectTimer, SocketOpen 1, SocketClose 0, SetInput (ascii ''hi''),
                    Send (fixed_clock 5)]
     = handleSendMessage (fixed_clock 5)
         (run_chat 0 [Mount, ReconnectTimer, SocketOpen 1, SocketClose 0, SetInput (ascii ''hi'')])"
    by (simp add: run_chat_def)
  show ?thesis
    unfolding a stale_status_state
    using trim_hi by (simp add: send_open js_index_def fixed_clock_def)
qed

text \<open>
  C8, as the code has it: sending a message with non-blank input and no response pending
  while the current socket is missing or not open appends exactly two messages, the
  user's text once and then the synthetic warning, transmits nothing, clears the input and
  the loading flag, and attempts a reconnect: a new socket is created, becomes the current
  one, and the status becomes Connecting.
\<close>

theorem send_while_not_open:
  assumes "js_trim (inputValue s) \<noteq> []" and "\<not> isLoading s" and "\<not> ws_open s"
  shows "let s' = handleSendMessage now s in
     messages s' = messages s @
        [\<lparr>msg_id = now 0, msg_text = inputValue s, sender = User, timestamp = now 1\<rparr>,
         \<lparr>msg_id = now 2 + 1, msg_text = warning_text, sender = Bot, timestamp = now 3\<rparr>]
     \<and> sent s' = sent s
     \<and> sockets s' = sockets s @ [CONNECTING]
     \<and> ws s' = Some (length (sockets s))
     \<and> connectionStatus s' = Connecting
     \<and> isLoading s' = False
     \<and> inputValue s' = []"
  by (simp add: send_not_open [OF assms])

theorem send_while_not_open_witness:
  "\<not> ws_open (run_chat 0 [Mount, SocketClose 0, SetInput (ascii ''hi'')])
   \<and> messages (handleSendMessage (fixed_clock 5) (run_chat 0 [Mount, SocketClose 0, SetInput (ascii ''hi'')]))
     = [INTRO_MESSAGE 0,
        \<lparr>msg_id = 5, msg_text = ascii ''hi'', sender = User, timestamp = 5\<rparr>,
        \<lparr>msg_id = 6, msg_text = warning_text, sender = Bot, timestamp = 5\<rparr>]
   \<and> sent (handleSendMessage (fixed_clock 5) (run_chat 0 [Mount, SocketClose 0, SetInput (ascii ''hi'')]))
     = []
   \<and> sockets (handleSendMessage (fixed_clock 5) (run_chat 0 [Mount, SocketClose 0, SetInput (ascii ''hi'')]))
     = [CLOSED, CONNECTING]"
proof -
  have st: "run_chat 0 [Mount, SocketClose 0, SetInput (ascii ''hi'')]
     = \<lparr>messages = [INTRO_MESSAGE 0], inputValue = ascii ''hi'', isLoading = False,
        connectionStatus = Disconnected, sockets = [CLOSED], ws = Some 0, sent = []\<rparr>"
    by (simp add: run_chat_def initial_chat_def connectWebSocket_def ws_open_def js_index_def)
  have n: "\<not> ws_open (run_chat 0 [Mount, SocketClose 0, SetInput (ascii ''hi'')])"
    unfolding st by (simp add: ws_open_def js_index_def)
  have t: "js_trim (inputValue (run_chat 0 [Mount, SocketClose 0, SetInput (ascii ''hi'')])) \<noteq> []"
    unfolding st using trim_hi by simp
  have l: "\<not> isLoading (run_chat 0 [Mount, SocketClose 0, SetInput (ascii ''hi'')])"
    unfolding st by simp
  show ?thesis
    using n send_while_not_open [OF t l n, of "fixed_clock 5"]
    by (simp add: Let_def st fixed_clock_def)
qed

subsection \<open>The guard of the send operation\<close>

text \<open>
  C10: sending with empty or white-space-only input, or while the loading flag is set,
  changes nothing: no message is appended, nothing is transmitted, the loading flag and
  the transport are as before. Hence a send transmits only when no response is pending,
  and then sets the loading flag, so at most one user message is outstanding.
\<close>

theorem send_guard_noop:
  "(js_trim (inputValue s) = [] \<or> isLoading s \<longrightarrow> handleSendMessage now s = s)
   \<and> (sent (handleSendMessage now s) = sent s
      \<or> (\<not> isLoading s \<and> isLoading (handleSendMessage now s)))"
proof -
  have 1: "js_trim (inputValue s) = [] \<or> isLoading s \<longrightarrow> handleSendMessage now s = s"
    by (simp add: send_guarded)
  have 2: "sent (handleSendMessage now s) = sent s
      \<or> (\<not> isLoading s \<and> isLoading (handleSendMessage now s))"
  proof (cases "js_trim (inputValue s) = [] \<or> isLoading s")
    case True
    then show ?thesis by (simp add: send_guarded)
  next
    case False
    then have t: "js_trim (inputValue s) \<noteq> []" and l: "\<not> isLoading s" by simp_all
    show ?thesis
    proof (cases "ws_open s")
      case True
      then obtain i where "ws s = Some i" "js_index (sockets s) i = Some OPEN"
        by (auto simp: ws_open_def split: option.splits)
      then show ?thesis using l by (simp add: send_open [OF t l])
    next
      case False
      then show ?thesis by (simp add: send_not_open [OF t l])
    qed
  qed
  from 1 2 show ?thesis by blast
qed

theorem send_guard_noop_witness:
  "js_trim (ascii ''  '' @ [9, 160]) = []
   \<and> handleSendMessage (fixed_clock 5) ((initial_chat 0)\<lparr>inputValue := ascii ''  '' @ [9, 160]\<rparr>)
       = (initial_chat 0)\<lparr>inputValue := ascii ''  '' @ [9, 160]\<rparr>
   \<and> handleSendMessage (fixed_clock 5) ((initial_chat 0)\<lparr>inputValue := ascii ''hi'', isLoading := True\<rparr>)
       = (initial_chat 0)\<lparr>inputValue := ascii ''hi'', isLoading := True\<rparr>"
proof -
  have b: "js_trim (ascii ''  '' @ [9, 160]) = []"
    by (simp add: js_trim_def ascii_def js_whitespace_def)
  have 1: "handleSendMessage (fixed_clock 5) ((initial_chat 0)\<lparr>inputValue := ascii ''  '' @ [9, 160]\<rparr>)
       = (initial_chat 0)\<lparr>inputValue := ascii ''  '' @ [9, 160]\<rparr>"
    using send_guard_noop [of "(initial_chat 0)\<lparr>inputValue := ascii ''  '' @ [9, 160]\<rparr>" "fixed_clock 5"] b
    by simp
  have 2: "handleSendMessage (fixed_clock 5) ((initial_chat 0)\<lparr>inputValue := ascii ''hi'', isLoading := True\<rparr>)
       = (initial_chat 0)\<lparr>inputValue := ascii ''hi'', isLoading := True\<rparr>"
    using send_guard_noop [of "(initial_chat 0)\<lparr>inputValue := ascii ''hi'', isLoading := True\<rparr>" "fixed_clock 5"]
    by simp
  from b 1 2 show ?thesis by blast
qed

section \<open>Facts about the auto-scroll loop\<close>

lemma scroll_top_band:
  assumes "in_top_band y el"
  shows "scroll_region y el
           = el\<lparr>scrollTop := scrollTop el - SCROLL_SPEED * (1 - (y - rect_top el) / EDGE_SIZE)\<rparr>"
    and "0 < 1 - (y - rect_top el) / EDGE_SIZE" and "1 - (y - rect_top el) / EDGE_SIZE < 1"
  using assms by (simp_all add: scroll_region_def in_top_band_def EDGE_SIZE_def)

lemma scroll_bottom_band:
  assumes "\<not> in_top_band y el" and "in_bottom_band y el"
  shows "scroll_region y el
           = el\<lparr>scrollTop := scrollTop el + SCROLL_SPEED * (1 - (rect_bottom el - y) / EDGE_SIZE)\<rparr>"
    and "0 < 1 - (rect_bottom el - y) / EDGE_SIZE" and "1 - (rect_bottom el - y) / EDGE_SIZE < 1"
  using assms by (auto simp add: scroll_region_def in_top_band_def in_bottom_band_def EDGE_SIZE_def)

lemma scroll_no_band:
  assumes "\<not> in_top_band y el" and "\<not> in_bottom_band y el"
  shows "scroll_region y el = el"
  using assms by (auto simp add: scroll_region_def in_top_band_def in_bottom_band_def)

lemma tick_dragging:
  "tick True s = (case lastMouseEvent s of None \<Rightarrow> s
                  | Some y \<Rightarrow> s\<lparr>scrollEl := map_option (scroll_region y) (scrollEl s),
                                poolEl := map_option (scroll_region y) (poolEl s)\<rparr>)"
  by (simp add: tick_def handleMouseMove_def split: option.splits)

lemma tick_idle: "tick False s = s"
  by (simp add: tick_def split: option.splits)

subsection \<open>One tick of the loop\<close>

text \<open>
  C9, as stated, asks for a scroll toward the nearer edge whenever the pointer is within a
  band, with an intensity up to 1. In a region 100 pixels high the pointer at 70 is nearer
  to the bottom edge, yet the region scrolls up, by 1 pixel and not by the 5 pixels of the
  bottom band; and with the pointer exactly on the top edge, where the intensity would be
  1, the region does not scroll.
\<close>

theorem edge_band_counterexample:
  "scrollTop (scroll_region 70 \<lparr>rect_top = 0, rect_bottom = 100, scrollTop = 50\<rparr>) = 49
   \<and> scrollTop (scroll_region 70 \<lparr>rect_top = 0, rect_bottom = 100, scrollTop = 50\<rparr>)
       \<noteq> 50 + SCROLL_SPEED * (1 - (100 - 70) / EDGE_SIZE)
   \<and> scroll_region 0 \<lparr>rect_top = 0, rect_bottom = 1000, scrollTop = 50\<rparr>
       = \<lparr>rect_top = 0, rect_bottom = 1000, scrollTop = 50\<rparr>
   \<and> scrollTop (scroll_region 0 \<lparr>rect_top = 0, rect_bottom = 1000, scrollTop = 50\<rparr>)
       \<noteq> 50 - SCROLL_SPEED * (1 - (0 - 0) / EDGE_SIZE)"
  by (simp add: scroll_region_def EDGE_SIZE_def SCROLL_SPEED_def)

text \<open>
  C9, as the code has it: in a tick of an active drag with a known pointer position, each of
  the two regions is treated on its own. If the pointer is strictly inside the top band
  (\<open>top < y < top + E\<close>) the region's \<open>scrollTop\<close> is decreased by speed times
  intensity, with intensity \<open>1 - (y - top) / E\<close>; otherwise, if it is strictly inside the
  bottom band (\<open>bottom - E < y < bottom\<close>), \<open>scrollTop\<close> is increased by speed times
  \<open>1 - (bottom - y) / E\<close>; the intensity lies strictly between 0 and 1; where the two
  bands overlap the top band wins; outside both bands, and on their boundaries, the region
  is not scrolled. Without an active drag a tick changes nothing.
\<close>

theorem auto_scroll_tick:
  "(in_top_band y el \<longrightarrow>
      scroll_region y el
        = el\<lparr>scrollTop := scrollTop el - SCROLL_SPEED * (1 - (y - rect_top el) / EDGE_SIZE)\<rparr>
      \<and> 0 < 1 - (y - rect_top el) / EDGE_SIZE \<and> 1 - (y - rect_top el) / EDGE_SIZE < 1)
   \<and> (\<not> in_top_band y el \<and> in_bottom_band y el \<longrightarrow>
      scroll_region y el
        = el\<lparr>scrollTop := scrollTop el + SCROLL_SPEED * (1 - (rect_bottom el - y) / EDGE_SIZE)\<rparr>
      \<and> 0 < 1 - (rect_bottom el - y) / EDGE_SIZE \<and> 1 - (rect_bottom el - y) / EDGE_SIZE < 1)
   \<and> (\<not> in_top_band y el \<and> \<not> in_bottom_band y el \<longrightarrow> scroll_region y el = el)
   \<and> (lastMouseEvent s = Some y \<longrightarrow>
        scrollEl (tick True s) = map_option (scroll_region y) (scrollEl s)
        \<and> poolEl (tick True s) = map_option (scroll_region y) (poolEl s))
   \<and> tick False s = s"
  using scroll_top_band [of y el] scroll_bottom_band [of y el] scroll_no_band [of y el]
    tick_idle [of s]
  by (simp add: tick_dragging)

theorem auto_scroll_tick_witness:
  "in_top_band 20 \<lparr>rect_top = 0, rect_bottom = 1000, scrollTop = 50\<rparr>
   \<and> scroll_region 20 \<lparr>rect_top = 0, rect_bottom = 1000, scrollTop = 50\<rparr>
       = \<lparr>rect_top = 0, rect_bottom = 1000, scrollTop = 44\<rparr>
   \<and> in_bottom_band 980 \<lparr>rect_top = 0, rect_bottom = 1000, scrollTop = 50\<rparr>
   \<and> scroll_region 980 \<lparr>rect_top = 0, rect_bottom = 1000, scrollTop = 50\<rparr>
       = \<lparr>rect_top = 0, rect_bottom = 1000, scrollTop = 56\<rparr>
   \<and> scroll_region 500 \<lparr>rect_top = 0, rect_bottom = 1000, scrollTop = 50\<rparr>
       = \<lparr>rect_top = 0, rect_bottom = 1000, scrollTop = 50\<rparr>
   \<and> tick True \<lparr>scrollEl = Some \<lparr>rect_top = 0, rect_bottom = 1000, scrollTop = 50\<rparr>,
                 poolEl = Some \<lparr>rect_top = 0, rect_bottom = 400, scrollTop = 0\<rparr>,
                 lastMouseEvent = Some 20\<rparr>
       = \<lparr>scrollEl = Some (scroll_region 20 \<lparr>rect_top = 0, rect_bottom = 1000, scrollTop = 50\<rparr>),
          poolEl = Some (scroll_region 20 \<lparr>rect_top = 0, rect_bottom = 400, scrollTop = 0\<rparr>),
          lastMouseEvent = Some 20\<rparr>"
proof -
  let ?el = "\<lparr>rect_top = 0, rect_bottom = 1000, scrollTop = 50\<rparr>"
  let ?s = "\<lparr>scrollEl = Some ?el,
             poolEl = Some \<lparr>rect_top = 0, rect_bottom = 400, scrollTop = 0\<rparr>,
             lastMouseEvent = Some 20\<rparr>"
  have t: "in_top_band 20 ?el"
    by (simp add: in_top_band_def EDGE_SIZE_def)
  have b: "in_bottom_band 980 ?el" "\<not> in_top_band 980 ?el"
    by (simp_all add: in_bottom_band_def in_top_band_def EDGE_SIZE_def)
  have n: "\<not> in_bottom_band 500 ?el" "\<not> in_top_band 500 ?el"
    by (simp_all add: in_bottom_band_def in_top_band_def EDGE_SIZE_def)
  have 1: "scroll_region 20 ?el = \<lparr>rect_top = 0, rect_bottom = 1000, scrollTop = 44\<rparr>"
    using auto_scroll_tick [of 20 ?el ?s] t by (simp add: EDGE_SIZE_def SCROLL_SPEED_def)
  have 2: "scroll_region 980 ?el = \<lparr>rect_top = 0, rect_bottom = 1000, scrollTop = 56\<rparr>"
    using auto_scroll_tick [of 980 ?el ?s] b by (simp add: EDGE_SIZE_def SCROLL_SPEED_def)
  have 3: "scroll_region 500 ?el = ?el"
    using auto_scroll_tick [of 500 ?el ?s] n by simp
  have 4: "tick True ?s
       = \<lparr>scrollEl = Some (scroll_region 20 ?el),
          poolEl = Some (scroll_region 20 \<lparr>rect_top = 0, rect_bottom = 400, scrollTop = 0\<rparr>),
          lastMouseEvent = Some 20\<rparr>"
  proof -
    from auto_scroll_tick [of 20 ?el ?s] have
      "scrollEl (tick True ?s) = map_option (scroll_region 20) (scrollEl ?s)"
      "poolEl (tick True ?s) = map_option (scroll_region 20) (poolEl ?s)"
      by simp_all
    moreover have "lastMouseEvent (tick True ?s) = Some 20"
      by (simp add: tick_dragging)
    ultimately show ?thesis by (cases "tick True ?s") simp
  qed
  from t b(1) 1 2 3 4 show ?thesis by blast
qed

end
